theory Spec2Isabelle
  imports Complex_Main "HOL-Library.Word" "HOL-Library.Multiset"
begin

section \<open>Entity store: ModelTreeElement.cpp\<close>

subsection \<open>Data\<close>

text \<open>
  A glm::vec3 is three floats; the model idealises them as reals, so neither the
  rounding of float arithmetic nor its overflow to infinity is modelled. Only one
  claim depends on arithmetic over positions (the closest-entity scan), and it is
  examined at coordinates and distances that floats represent exactly.
\<close>

type_synonym vec3 = "real \<times> real \<times> real"

text \<open>
  ModelItem is declared outside the sources at hand. The record lists the members
  that ModelTreeElement.cpp reads through getters: getID (uint32_t), getCreatorTokenID,
  getLastEdited and getLastUpdated (quint64), getPosition, getRadius, getShouldDie.
  The remaining members (colour, model URL, rotation, ...) are stood for by modelURL.
\<close>

record ModelItem =
  itemID :: "32 word"
  creatorTokenID :: "32 word"
  lastEdited :: "64 word"
  lastUpdated :: "64 word"
  position :: vec3
  radius :: real
  shouldDie :: bool
  modelURL :: string

text \<open>
  The members of ModelTreeElement (and of its base OctreeElement) that the modelled
  functions touch: the QList of entities, the change time set by
  markWithChangedTime(), and the bounding box. AABox is declared elsewhere; the box
  is represented by its contains() test.
\<close>

record ModelTreeElement =
  modelItems :: "ModelItem list"
  lastChanged :: "64 word"
  boxContains :: "vec3 \<Rightarrow> bool"

text \<open>
  markWithChangedTime() stores usecTimestampNow() in _lastChanged; the clock reading
  is passed in as now.
\<close>

definition markWithChangedTime :: "64 word \<Rightarrow> ModelTreeElement \<Rightarrow> ModelTreeElement" where
  "markWithChangedTime now e = e\<lparr>lastChanged := now\<rparr>"

text \<open>
  Several functions copy the list size into a uint16_t:
  uint16_t numberOfModels = _modelItems->size(). The conversion is modulo 2^16.
\<close>

definition numberOfModels16 :: "ModelItem list \<Rightarrow> nat" where
  "numberOfModels16 items = length items mod 65536"

subsection \<open>update: the per-tick sweep\<close>

text \<open>
  ModelTreeElement::update (lines 69-94). The while loop walks the list with an
  iterator; each entity is first advanced by ModelItem::update(_lastChanged) (declared
  elsewhere, passed in as itemUpdate), then either pushed onto args._movingModels and
  erased, or kept. The loop state is the list of entities already passed (kept), the
  entities still ahead of the iterator, and the relocation list.
\<close>

fun update_loop ::
  "(64 word \<Rightarrow> ModelItem \<Rightarrow> ModelItem) \<Rightarrow> 64 word \<Rightarrow> (vec3 \<Rightarrow> bool) \<Rightarrow>
   ModelItem list \<Rightarrow> ModelItem list \<Rightarrow> ModelItem list \<Rightarrow> ModelItem list \<times> ModelItem list" where
  "update_loop itemUpdate changed contains kept [] moving = (kept, moving)"
| "update_loop itemUpdate changed contains kept (m # rest) moving =
     (let model = itemUpdate changed m in
      if shouldDie model \<or> \<not> contains (position model)
      then update_loop itemUpdate changed contains kept rest (moving @ [model])
      else update_loop itemUpdate changed contains (kept @ [model]) rest moving)"

definition update ::
  "(64 word \<Rightarrow> ModelItem \<Rightarrow> ModelItem) \<Rightarrow> 64 word \<Rightarrow> ModelTreeElement \<Rightarrow> ModelItem list \<Rightarrow>
   ModelTreeElement \<times> ModelItem list" where
  "update itemUpdate now e movingModels =
     (let e1 = markWithChangedTime now e;
          (kept, moving) = update_loop itemUpdate (lastChanged e1) (boxContains e1) []
                             (modelItems e1) movingModels
      in (e1\<lparr>modelItems := kept\<rparr>, moving))"

subsection \<open>updateModel: merge of a server edit\<close>

text \<open>
  ModelTreeElement::updateModel(const ModelItem&) (lines 120-154). The for loop runs
  i from 0 while i < numberOfModels, both uint16_t; i never wraps because it stays
  below numberOfModels. ModelItem::copyChangedProperties is declared elsewhere and is
  passed in. The result is the returned bool and the element afterwards.
\<close>

function updateModel_loop ::
  "(ModelItem \<Rightarrow> ModelItem \<Rightarrow> ModelItem) \<Rightarrow> 64 word \<Rightarrow> ModelItem \<Rightarrow> nat \<Rightarrow> nat \<Rightarrow>
   ModelTreeElement \<Rightarrow> bool \<times> ModelTreeElement" where
  "updateModel_loop copyChangedProperties now model numberOfModels i e =
     (if i < numberOfModels then
        (let thisModel = modelItems e ! i in
         if itemID thisModel = itemID model then
           (let changedOnServer = lastEdited thisModel < lastEdited model;
                localOlder = lastUpdated thisModel < lastUpdated model
            in if changedOnServer \<or> localOlder
               then (True, markWithChangedTime now
                       (e\<lparr>modelItems := (modelItems e)[i := copyChangedProperties thisModel model]\<rparr>))
               else (True, e))
         else updateModel_loop copyChangedProperties now model numberOfModels (i + 1) e)
      else (False, e))"
  by pat_completeness auto
termination
  by (relation "measure (\<lambda>(c, t, m, n, i, e). n - i)") auto

definition updateModel ::
  "(ModelItem \<Rightarrow> ModelItem \<Rightarrow> ModelItem) \<Rightarrow> 64 word \<Rightarrow> ModelItem \<Rightarrow> ModelTreeElement \<Rightarrow>
   bool \<times> ModelTreeElement" where
  "updateModel copyChangedProperties now model e =
     updateModel_loop copyChangedProperties now model (numberOfModels16 (modelItems e)) 0 e"

subsection \<open>getClosestModel: the closest-entity scan\<close>

text \<open>
  glm::distance is the Euclidean distance, here over the reals; FLT_MAX is the largest
  finite float.
\<close>

definition glm_distance :: "vec3 \<Rightarrow> vec3 \<Rightarrow> real" where
  "glm_distance p q =
     (case (p, q) of ((px, py, pz), (qx, qy, qz)) \<Rightarrow>
        sqrt ((px - qx) ^ 2 + (py - qy) ^ 2 + (pz - qz) ^ 2))"

definition FLT_MAX :: real where
  "FLT_MAX = 340282346638528859811704183484516925440"

text \<open>
  ModelTreeElement::getClosestModel (lines 213-224). The returned pointer
  &(*_modelItems)[i] is the index i; NULL is None. closestModelDistance is
  initialised to FLT_MAX and the loop body never assigns it.
\<close>

function getClosestModel_loop ::
  "vec3 \<Rightarrow> ModelItem list \<Rightarrow> nat \<Rightarrow> nat \<Rightarrow> nat option \<Rightarrow> real \<Rightarrow> nat option" where
  "getClosestModel_loop pos items numberOfModels i closestModel closestModelDistance =
     (if i < numberOfModels then
        (let distanceToModel = glm_distance pos (position (items ! i)) in
         if distanceToModel < closestModelDistance
         then getClosestModel_loop pos items numberOfModels (i + 1) (Some i) closestModelDistance
         else getClosestModel_loop pos items numberOfModels (i + 1) closestModel closestModelDistance)
      else closestModel)"
  by pat_completeness auto
termination
  by (relation "measure (\<lambda>(p, xs, n, i, c, d). n - i)") auto

definition getClosestModel :: "vec3 \<Rightarrow> ModelTreeElement \<Rightarrow> nat option" where
  "getClosestModel pos e =
     getClosestModel_loop pos (modelItems e) (numberOfModels16 (modelItems e)) 0 None FLT_MAX"

subsection \<open>readElementDataFromBuffer: decoding\<close>

type_synonym byte = "8 word"

text \<open>
  *(uint16_t* )dataAt reads two bytes in host order; the supported hosts are
  little-endian. The buffer is the byte list data and dataAt is an offset into it.
\<close>

definition readUInt16 :: "byte list \<Rightarrow> nat \<Rightarrow> nat" where
  "readUInt16 data off = unat (data ! off) + 256 * unat (data ! (off + 1))"

text \<open>
  An int is 32 bits wide. Signed overflow is undefined in C++; the model takes the
  two's-complement result that the arithmetic instructions of the target machines
  give, which is what int32 makes of an integer.
\<close>

definition int32 :: "int \<Rightarrow> int" where
  "int32 x = (x + 2147483648) mod 4294967296 - 2147483648"

text \<open>
  ModelTreeElement::readElementDataFromBuffer (lines 281-309). ModelItem::expectedBytes
  and ModelItem::readModelDataFromBuffer are declared elsewhere and passed in; the
  latter gets the buffer, the offset dataAt and bytesLeftToRead and gives the decoded
  entity and the number of bytes it used. The C ints are written as integers, and
  int32 is applied wherever the source computes in int: to the product in the guard
  and to the two running counts of the loop. The pointer dataAt is an offset.
  _myTree->storeModel(tempModel) is recorded in the list stored. The last
  component, calls, is not program state: it records the offset and the remaining-byte
  count handed to each readModelDataFromBuffer call, so that the reads can be spoken
  about.
\<close>

function readElementData_loop ::
  "(byte list \<Rightarrow> int \<Rightarrow> int \<Rightarrow> ModelItem \<times> int) \<Rightarrow> byte list \<Rightarrow> nat \<Rightarrow> nat \<Rightarrow>
   int \<Rightarrow> int \<Rightarrow> int \<Rightarrow> ModelItem list \<Rightarrow> (int \<times> int) list \<Rightarrow>
   int \<times> ModelItem list \<times> (int \<times> int) list" where
  "readElementData_loop readModelDataFromBuffer data numberOfModels i
       dataAt bytesLeftToRead bytesRead stored calls =
     (if i < numberOfModels then
        (case readModelDataFromBuffer data dataAt bytesLeftToRead of
           (tempModel, bytesForThisModel) \<Rightarrow>
             readElementData_loop readModelDataFromBuffer data numberOfModels (i + 1)
               (dataAt + bytesForThisModel) (int32 (bytesLeftToRead - bytesForThisModel))
               (int32 (bytesRead + bytesForThisModel)) (stored @ [tempModel])
               (calls @ [(dataAt, bytesLeftToRead)]))
      else (bytesRead, stored, calls))"
  by pat_completeness auto
termination
  by (relation "measure (\<lambda>(r, d, n, i, a, l, b, s, c). n - i)") auto

definition readElementDataFromBuffer ::
  "(byte list \<Rightarrow> int \<Rightarrow> int \<Rightarrow> ModelItem \<times> int) \<Rightarrow> int \<Rightarrow> byte list \<Rightarrow> int \<Rightarrow>
   int \<times> ModelItem list \<times> (int \<times> int) list" where
  "readElementDataFromBuffer readModelDataFromBuffer expectedBytesPerModel data bytesLeftToRead =
     (if bytesLeftToRead \<ge> 2 then
        (let numberOfModels = readUInt16 data 0 in
         if bytesLeftToRead - 2 \<ge> int32 (int numberOfModels * expectedBytesPerModel)
         then readElementData_loop readModelDataFromBuffer data numberOfModels 0
                2 (bytesLeftToRead - 2) 2 [] []
         else (2, [], []))
      else (0, [], []))"

text \<open>
  Modelled from the spec: ModelItem::copyChangedProperties is declared and defined
  outside the sources at hand. The spec describes the overwrite as "copy all incoming
  properties onto local" and the store afterwards as equal to the incoming entity, so
  the stored entity becomes the incoming one.
\<close>

definition copyChangedProperties :: "ModelItem \<Rightarrow> ModelItem \<Rightarrow> ModelItem" where
  "copyChangedProperties thisModel other = other"

section \<open>Edit packet batching: OctreeEditPacketSender.cpp\<close>

subsection \<open>Data\<close>

text \<open>
  A QUuid is a 128-bit value; isNull() holds of the all-zero one. PacketType is an
  enumeration declared elsewhere, of which the code names PacketTypeUnknown only.
\<close>

type_synonym QUuid = "128 word"

datatype PacketType = PacketTypeUnknown | PacketTypeKnown nat

text \<open>
  EditPacketBuffer: _nodeUUID, _currentType, the array _currentBuffer and the fill
  length _currentSize. The model keeps the first _currentSize bytes of the array as
  the list currentBuffer, so that _currentSize is its length; bytes behind
  _currentSize are never read by the code. The capacity of the array
  (MAX_PACKET_SIZE, declared elsewhere) is not modelled: a memcpy past it is
  undefined behaviour in the source and an ordinary append here.
\<close>

record EditPacketBuffer =
  nodeUUID :: QUuid
  currentType :: PacketType
  currentBuffer :: "byte list"

definition currentSize :: "EditPacketBuffer \<Rightarrow> int" where
  "currentSize b = int (length (currentBuffer b))"

text \<open>
  The constructor EditPacketBuffer(type, buffer, length, nodeUUID = QUuid()) of lines
  21-27, as the two pending lists use it (without a node).
\<close>

definition newEditPacketBuffer :: "PacketType \<Rightarrow> byte list \<Rightarrow> EditPacketBuffer" where
  "newEditPacketBuffer type buffer = \<lparr>nodeUUID = 0, currentType = type, currentBuffer = buffer\<rparr>"

text \<open>
  What the code reads of a node of the NodeList: getUUID, getType, whether
  getActiveSocket is non-null, and getClockSkewUsec.
\<close>

record Node =
  uuid :: QUuid
  nodeType :: "8 word"
  hasActiveSocket :: bool
  clockSkewUsec :: int

text \<open>
  A JurisdictionMap is used through one test only,
  isMyJurisdiction(octcode, CHECK_NODE_ONLY) == JurisdictionMap::WITHIN, and is
  represented by that test on the bytes starting at the octcode.
\<close>

type_synonym JurisdictionMap = "byte list \<Rightarrow> bool"

text \<open>
  The collaborators of the sender, none of which is defined in the sources at hand:
  the node hash in its iteration order, the virtual getMyNodeType, the jurisdiction
  map behind the pointer _serverJurisdictions (None for a null pointer), the header
  bytes populatePacketHeader writes for a type, numBytesForPacketHeader, the virtual
  adjustEditPacketForClockSkew (it rewrites the buffer it is given in place and gives
  nothing back, so it is a function from the bytes and the skew to the bytes
  afterwards), the readings of usecTimestampNow in the order they are taken, the
  default-constructed EditPacketBuffer that std::map::operator[] inserts for a new key,
  and the default-constructed JurisdictionMap.
\<close>

record Env =
  nodeHash :: "Node list"
  myNodeType :: "8 word"
  serverJurisdictions :: "(QUuid \<Rightarrow> JurisdictionMap option) option"
  populatePacketHeader :: "PacketType \<Rightarrow> byte list"
  numBytesForPacketHeader :: "byte list \<Rightarrow> nat"
  adjustEditPacketForClockSkew :: "byte list \<Rightarrow> int \<Rightarrow> byte list"
  usecTimestampNow :: "nat \<Rightarrow> 64 word"
  defaultEditPacketBuffer :: EditPacketBuffer
  defaultJurisdictionMap :: JurisdictionMap

text \<open>
  The members of OctreeEditPacketSender. _pendingEditPackets is a std::map, kept here
  as a list of pairs in key order. packetsQueued is the hand-over to the base class:
  the node and the bytes of every PacketSender::queuePacketForSending call, in order.
  clockReads counts the readings of usecTimestampNow taken so far.
\<close>

record OctreeEditPacketSender =
  shouldSend :: bool
  maxPendingMessages :: int
  releaseQueuedMessagesPending :: bool
  sequenceNumber :: "16 word"
  maxPacketSize :: int
  preServerSingleMessagePackets :: "EditPacketBuffer list"
  preServerPackets :: "EditPacketBuffer list"
  pendingEditPackets :: "(QUuid \<times> EditPacketBuffer) list"
  packetsQueued :: "(QUuid \<times> byte list) list"
  clockReads :: nat

datatype failure = AssertionFailed | NullPointerDereference

subsection \<open>std::map access\<close>

fun mapFind :: "QUuid \<Rightarrow> (QUuid \<times> 'v) list \<Rightarrow> 'v option" where
  "mapFind k [] = None"
| "mapFind k ((k', v) # rest) = (if k = k' then Some v else mapFind k rest)"

fun mapPut :: "QUuid \<Rightarrow> 'v \<Rightarrow> (QUuid \<times> 'v) list \<Rightarrow> (QUuid \<times> 'v) list" where
  "mapPut k v [] = [(k, v)]"
| "mapPut k v ((k', v') # rest) =
     (if k = k' then (k, v) # rest
      else if k < k' then (k, v) # (k', v') # rest
      else (k', v') # mapPut k v rest)"

subsection \<open>Stores of integers in host byte order\<close>

definition bytesOfUInt16 :: "16 word \<Rightarrow> byte list" where
  "bytesOfUInt16 w = [ucast w, ucast (drop_bit 8 w)]"

definition bytesOfUInt64 :: "64 word \<Rightarrow> byte list" where
  "bytesOfUInt64 w = map (\<lambda>i. ucast (drop_bit (8 * i) w)) [0..<8]"

text \<open>
  The read of a quint64 through a cast pointer, as the debugging output of lines 104-105
  reads the header fields back: the value of the first eight bytes.
\<close>

definition readUInt64 :: "byte list \<Rightarrow> 64 word" where
  "readUInt64 data = foldr (\<lambda>b acc. ucast b + 256 * acc) (take 8 data) 0"

subsection \<open>serversExist\<close>

text \<open>
  Lines 59-86. The loop state is the pair (hasServers, atLeastOneJurisdictionMissing);
  the loop leaves at the first node for which a jurisdiction is missing.
\<close>

fun serversExist_loop :: "Env \<Rightarrow> Node list \<Rightarrow> bool \<Rightarrow> bool \<Rightarrow> bool \<times> bool" where
  "serversExist_loop env [] hasServers missing = (hasServers, missing)"
| "serversExist_loop env (node # rest) hasServers missing =
     (let (hasServers', missing') =
            (if nodeType node = myNodeType env \<and> hasActiveSocket node
             then (True,
                   case serverJurisdictions env of
                     None \<Rightarrow> missing
                   | Some jurisdictions \<Rightarrow>
                       (if jurisdictions (uuid node) = None then True else missing))
             else (hasServers, missing))
      in if missing' then (hasServers', missing')
         else serversExist_loop env rest hasServers' missing')"

definition serversExist :: "Env \<Rightarrow> bool" where
  "serversExist env =
     (let (hasServers, atLeastOneJurisdictionMissing) =
            serversExist_loop env (nodeHash env) False False
      in hasServers \<and> \<not> atLeastOneJurisdictionMissing)"

subsection \<open>queuePacketToNode, releaseQueuedPacket, initializePacket\<close>

text \<open>Lines 90-117, without the debugging output.\<close>

fun queuePacketToNode_loop ::
  "Env \<Rightarrow> Node list \<Rightarrow> QUuid \<Rightarrow> byte list \<Rightarrow> OctreeEditPacketSender \<Rightarrow> OctreeEditPacketSender" where
  "queuePacketToNode_loop env [] nodeID buffer s = s"
| "queuePacketToNode_loop env (node # rest) nodeID buffer s =
     queuePacketToNode_loop env rest nodeID buffer
       (if nodeType node = myNodeType env \<and> (uuid node = nodeID \<or> nodeID = 0)
        then (if hasActiveSocket node
              then s\<lparr>packetsQueued := packetsQueued s @ [(uuid node, buffer)]\<rparr>
              else s)
        else s)"

definition queuePacketToNode ::
  "Env \<Rightarrow> QUuid \<Rightarrow> byte list \<Rightarrow> OctreeEditPacketSender \<Rightarrow> OctreeEditPacketSender" where
  "queuePacketToNode env nodeID buffer s = queuePacketToNode_loop env (nodeHash env) nodeID buffer s"

text \<open>Lines 290-296.\<close>

definition releaseQueuedPacket ::
  "Env \<Rightarrow> EditPacketBuffer \<Rightarrow> OctreeEditPacketSender \<Rightarrow> EditPacketBuffer \<times> OctreeEditPacketSender" where
  "releaseQueuedPacket env packetBuffer s =
     (let s' = (if currentSize packetBuffer > 0 \<and> currentType packetBuffer \<noteq> PacketTypeUnknown
                then queuePacketToNode env (nodeUUID packetBuffer) (currentBuffer packetBuffer) s
                else s)
      in (packetBuffer\<lparr>currentBuffer := [], currentType := PacketTypeUnknown\<rparr>, s'))"

text \<open>
  Lines 298-314. The header is written from the start of the array, then the
  sequence number and the clock reading; _currentSize ends behind the three.
\<close>

definition initializePacket ::
  "Env \<Rightarrow> EditPacketBuffer \<Rightarrow> PacketType \<Rightarrow> OctreeEditPacketSender \<Rightarrow>
   EditPacketBuffer \<times> OctreeEditPacketSender" where
  "initializePacket env packetBuffer type s =
     (let header = populatePacketHeader env type;
          sequenceBytes = bytesOfUInt16 (sequenceNumber s);
          s1 = s\<lparr>sequenceNumber := sequenceNumber s + 1\<rparr>;
          now = usecTimestampNow env (clockReads s1);
          s2 = s1\<lparr>clockReads := clockReads s1 + 1\<rparr>
      in (packetBuffer\<lparr>currentBuffer := header @ sequenceBytes @ bytesOfUInt64 now,
                        currentType := type\<rparr>, s2))"

subsection \<open>queuePendingPacketToNodes and queueOctreeEditMessage\<close>

text \<open>Lines 148-164.\<close>

definition queuePendingPacketToNodes ::
  "PacketType \<Rightarrow> byte list \<Rightarrow> OctreeEditPacketSender \<Rightarrow> OctreeEditPacketSender" where
  "queuePendingPacketToNodes type buffer s =
     (if maxPendingMessages s > 0 then
        (let s1 = s\<lparr>preServerSingleMessagePackets :=
                      preServerSingleMessagePackets s @ [newEditPacketBuffer type buffer]\<rparr>;
             allPendingMessages = int (length (preServerSingleMessagePackets s1)) +
                                  int (length (preServerPackets s1))
         in if allPendingMessages > maxPendingMessages s1
            then s1\<lparr>preServerSingleMessagePackets := tl (preServerSingleMessagePackets s1)\<rparr>
            else s1)
      else s)"

text \<open>
  _pendingEditPackets[nodeUUID]: the entry for the node, or a default-constructed
  buffer when the map has none.
\<close>

definition pendingEditPacketFor :: "Env \<Rightarrow> QUuid \<Rightarrow> OctreeEditPacketSender \<Rightarrow> EditPacketBuffer" where
  "pendingEditPacketFor env k s =
     (case mapFind k (pendingEditPackets s) of
        None \<Rightarrow> defaultEditPacketBuffer env
      | Some b \<Rightarrow> b)"

text \<open>
  Lines 247-271: what queueOctreeEditMessage does for one node inside whose
  jurisdiction the record lies. The reference packetBuffer is the entry of
  _pendingEditPackets for the node (created by operator[] when absent); it is taken
  out, worked on and put back. codeColorBuffer is the caller's buffer: the clock-skew
  adjustment is made in it, and it is returned as the loop goes on with it.
\<close>

definition appendToPacketBuffer ::
  "Env \<Rightarrow> PacketType \<Rightarrow> Node \<Rightarrow> byte list \<Rightarrow> OctreeEditPacketSender \<Rightarrow>
   byte list \<times> OctreeEditPacketSender" where
  "appendToPacketBuffer env type node codeColorBuffer s =
     (let packetBuffer = (pendingEditPacketFor env (uuid node) s)\<lparr>nodeUUID := uuid node\<rparr>;
          (packetBuffer1, s1) =
            (if (type \<noteq> currentType packetBuffer \<and> currentSize packetBuffer > 0) \<or>
                (currentSize packetBuffer + int (length codeColorBuffer) \<ge> maxPacketSize s)
             then (case releaseQueuedPacket env packetBuffer s of
                     (released, s') \<Rightarrow> initializePacket env released type s')
             else (packetBuffer, s));
          (packetBuffer2, s2) =
            (if type \<noteq> currentType packetBuffer1 \<and> currentSize packetBuffer1 = 0
             then initializePacket env packetBuffer1 type s1
             else (packetBuffer1, s1));
          codeColorBuffer' =
            (if clockSkewUsec node \<noteq> 0
             then adjustEditPacketForClockSkew env codeColorBuffer (clockSkewUsec node)
             else codeColorBuffer);
          packetBuffer3 = packetBuffer2\<lparr>currentBuffer := currentBuffer packetBuffer2 @ codeColorBuffer'\<rparr>
      in (codeColorBuffer',
          s2\<lparr>pendingEditPackets := mapPut (uuid node) packetBuffer3 (pendingEditPackets s2)\<rparr>))"

text \<open>Lines 230-274: the loop over the node hash.\<close>

fun queueOctreeEditMessage_loop ::
  "Env \<Rightarrow> PacketType \<Rightarrow> Node list \<Rightarrow> byte list \<Rightarrow> OctreeEditPacketSender \<Rightarrow> OctreeEditPacketSender" where
  "queueOctreeEditMessage_loop env type [] codeColorBuffer s = s"
| "queueOctreeEditMessage_loop env type (node # rest) codeColorBuffer s =
     (if hasActiveSocket node \<and> nodeType node = myNodeType env then
        (let isMyJurisdiction =
               (case serverJurisdictions env of
                  None \<Rightarrow> True
                | Some jurisdictions \<Rightarrow>
                    (case jurisdictions (uuid node) of
                       Some jurisdiction \<Rightarrow> jurisdiction codeColorBuffer
                     | None \<Rightarrow> False))
         in if isMyJurisdiction
            then (case appendToPacketBuffer env type node codeColorBuffer s of
                    (codeColorBuffer', s') \<Rightarrow>
                      queueOctreeEditMessage_loop env type rest codeColorBuffer' s')
            else queueOctreeEditMessage_loop env type rest codeColorBuffer s)
      else queueOctreeEditMessage_loop env type rest codeColorBuffer s)"

text \<open>Lines 199-275.\<close>

definition queueOctreeEditMessage ::
  "Env \<Rightarrow> PacketType \<Rightarrow> byte list \<Rightarrow> OctreeEditPacketSender \<Rightarrow> OctreeEditPacketSender" where
  "queueOctreeEditMessage env type codeColorBuffer s =
     (if \<not> shouldSend s then s
      else if \<not> serversExist env then
        (if maxPendingMessages s > 0 then
           (let s1 = s\<lparr>preServerPackets :=
                         preServerPackets s @ [newEditPacketBuffer type codeColorBuffer]\<rparr>;
                allPendingMessages = int (length (preServerSingleMessagePackets s1)) +
                                     int (length (preServerPackets s1))
            in if allPendingMessages > maxPendingMessages s1
               then s1\<lparr>preServerPackets := tl (preServerPackets s1)\<rparr>
               else s1)
         else s)
      else queueOctreeEditMessage_loop env type (nodeHash env) codeColorBuffer s)"

subsection \<open>queuePacketToNodes\<close>

text \<open>
  Lines 166-195. assert(serversExist()) aborts when it fails. The loop dereferences
  _serverJurisdictions without a test, and operator[] on the map gives a
  default-constructed JurisdictionMap for a node that has none; behind the assertion
  every node the loop looks up has one, so that the insertion operator[] would make is
  left out.
\<close>

fun queuePacketToNodes_loop ::
  "Env \<Rightarrow> Node list \<Rightarrow> byte list \<Rightarrow> byte list \<Rightarrow> OctreeEditPacketSender \<Rightarrow>
   failure + OctreeEditPacketSender" where
  "queuePacketToNodes_loop env [] buffer octCode s = Inr s"
| "queuePacketToNodes_loop env (node # rest) buffer octCode s =
     (if hasActiveSocket node \<and> nodeType node = myNodeType env then
        (case serverJurisdictions env of
           None \<Rightarrow> Inl NullPointerDereference
         | Some jurisdictions \<Rightarrow>
             (let jurisdiction = (case jurisdictions (uuid node) of
                                    Some j \<Rightarrow> j
                                  | None \<Rightarrow> defaultJurisdictionMap env);
                  isMyJurisdiction = jurisdiction octCode
              in queuePacketToNodes_loop env rest buffer octCode
                   (if isMyJurisdiction then queuePacketToNode env (uuid node) buffer s else s)))
      else queuePacketToNodes_loop env rest buffer octCode s)"

definition queuePacketToNodes ::
  "Env \<Rightarrow> byte list \<Rightarrow> OctreeEditPacketSender \<Rightarrow> failure + OctreeEditPacketSender" where
  "queuePacketToNodes env buffer s =
     (if \<not> shouldSend s then Inr s
      else if \<not> serversExist env then Inl AssertionFailed
      else (let headerBytes = numBytesForPacketHeader env buffer + 2 + 8;
                octCode = drop headerBytes buffer
            in queuePacketToNodes_loop env (nodeHash env) buffer octCode s))"

subsection \<open>releaseQueuedMessages, processPreServerExistsPackets, process\<close>

text \<open>Lines 277-288. The loop walks the map in key order.\<close>

fun releaseQueuedMessages_loop ::
  "Env \<Rightarrow> (QUuid \<times> EditPacketBuffer) list \<Rightarrow> (QUuid \<times> EditPacketBuffer) list \<Rightarrow>
   OctreeEditPacketSender \<Rightarrow> (QUuid \<times> EditPacketBuffer) list \<times> OctreeEditPacketSender" where
  "releaseQueuedMessages_loop env visited [] s = (visited, s)"
| "releaseQueuedMessages_loop env visited ((k, packetBuffer) # rest) s =
     (case releaseQueuedPacket env packetBuffer s of
        (released, s') \<Rightarrow> releaseQueuedMessages_loop env (visited @ [(k, released)]) rest s')"

definition releaseQueuedMessages :: "Env \<Rightarrow> OctreeEditPacketSender \<Rightarrow> OctreeEditPacketSender" where
  "releaseQueuedMessages env s =
     (if \<not> serversExist env then s\<lparr>releaseQueuedMessagesPending := True\<rparr>
      else (case releaseQueuedMessages_loop env [] (pendingEditPackets s) s of
              (buffers, s') \<Rightarrow> s'\<lparr>pendingEditPackets := buffers\<rparr>))"

text \<open>
  Lines 119-146. Each while loop takes the front packet, hands it on, and erases it.
  Behind the assertion the calls made in the loops do not touch the two pending
  lists, so the loops are written as recursions over the list, with the list member
  set to what is still ahead after each round.
\<close>

fun sendSingleMessagePackets ::
  "Env \<Rightarrow> EditPacketBuffer list \<Rightarrow> OctreeEditPacketSender \<Rightarrow> failure + OctreeEditPacketSender" where
  "sendSingleMessagePackets env [] s = Inr s"
| "sendSingleMessagePackets env (packet # rest) s =
     (case queuePacketToNodes env (currentBuffer packet) s of
        Inl f \<Rightarrow> Inl f
      | Inr s' \<Rightarrow> sendSingleMessagePackets env rest (s'\<lparr>preServerSingleMessagePackets := rest\<rparr>))"

fun replayPackets ::
  "Env \<Rightarrow> EditPacketBuffer list \<Rightarrow> OctreeEditPacketSender \<Rightarrow> OctreeEditPacketSender" where
  "replayPackets env [] s = s"
| "replayPackets env (packet # rest) s =
     replayPackets env rest
       ((queueOctreeEditMessage env (currentType packet) (currentBuffer packet) s)
          \<lparr>preServerPackets := rest\<rparr>)"

definition processPreServerExistsPackets ::
  "Env \<Rightarrow> OctreeEditPacketSender \<Rightarrow> failure + OctreeEditPacketSender" where
  "processPreServerExistsPackets env s =
     (if \<not> serversExist env then Inl AssertionFailed
      else (case sendSingleMessagePackets env (preServerSingleMessagePackets s) s of
              Inl f \<Rightarrow> Inl f
            | Inr s1 \<Rightarrow>
                (let s2 = replayPackets env (preServerPackets s1) s1
                 in if releaseQueuedMessagesPending s2
                    then Inr ((releaseQueuedMessages env s2)\<lparr>releaseQueuedMessagesPending := False\<rparr>)
                    else Inr s2)))"

text \<open>
  Lines 316-325, up to the call of the base class PacketSender::process(), which
  sends what has been queued.
\<close>

definition process :: "Env \<Rightarrow> OctreeEditPacketSender \<Rightarrow> failure + OctreeEditPacketSender" where
  "process env s =
     (if serversExist env \<and> (preServerPackets s \<noteq> [] \<or> preServerSingleMessagePackets s \<noteq> [])
      then processPreServerExistsPackets env s
      else Inr s)"

subsection \<open>Shorthand used in the statements\<close>

text \<open>The bytes initializePacket leaves in a buffer: header, sequence number, clock reading.\<close>

definition freshPacket :: "Env \<Rightarrow> PacketType \<Rightarrow> OctreeEditPacketSender \<Rightarrow> byte list" where
  "freshPacket env type s =
     populatePacketHeader env type @ bytesOfUInt16 (sequenceNumber s) @
     bytesOfUInt64 (usecTimestampNow env (clockReads s))"

text \<open>
  What releaseQueuedPacket hands over for a buffer (its bytes, to every active node of
  the sender's type that carries the buffer's UUID, when the buffer is non-empty and
  of a known type), and the buffer it leaves behind.
\<close>

definition releasedPackets :: "Env \<Rightarrow> EditPacketBuffer \<Rightarrow> (QUuid \<times> byte list) list" where
  "releasedPackets env b =
     (if currentSize b > 0 \<and> currentType b \<noteq> PacketTypeUnknown
      then map (\<lambda>n. (uuid n, currentBuffer b))
             (filter (\<lambda>n. nodeType n = myNodeType env \<and> (uuid n = nodeUUID b \<or> nodeUUID b = 0) \<and>
                          hasActiveSocket n) (nodeHash env))
      else [])"

definition emptied :: "EditPacketBuffer \<Rightarrow> EditPacketBuffer" where
  "emptied b = b\<lparr>currentBuffer := [], currentType := PacketTypeUnknown\<rparr>"

text \<open>
  Two sender states that agree on everything the batching path leaves alone: the
  settings, the latch and the two pending lists.
\<close>

definition batchingOnly :: "OctreeEditPacketSender \<Rightarrow> OctreeEditPacketSender \<Rightarrow> bool" where
  "batchingOnly s s' =
     (shouldSend s' = shouldSend s \<and> maxPendingMessages s' = maxPendingMessages s \<and>
      releaseQueuedMessagesPending s' = releaseQueuedMessagesPending s \<and>
      maxPacketSize s' = maxPacketSize s \<and>
      preServerSingleMessagePackets s' = preServerSingleMessagePackets s \<and>
      preServerPackets s' = preServerPackets s)"

subsection \<open>Sample data\<close>

definition sampleItem :: "32 word \<Rightarrow> 64 word \<Rightarrow> 64 word \<Rightarrow> real \<Rightarrow> bool \<Rightarrow> ModelItem" where
  "sampleItem i edited updated x dying =
     \<lparr>itemID = i, creatorTokenID = 0, lastEdited = edited, lastUpdated = updated,
      position = (x, 0, 0), radius = 1, shouldDie = dying, modelURL = []\<rparr>"

definition sampleElement :: "ModelItem list \<Rightarrow> ModelTreeElement" where
  "sampleElement items =
     \<lparr>modelItems = items, lastChanged = 0, boxContains = (\<lambda>(x, y, z). 0 \<le> x \<and> x \<le> 1)\<rparr>"

text \<open>
  Modelled from the spec: the overrides of adjustEditPacketForClockSkew live in the
  subclasses, outside the sources at hand. The spec says of the correction: "rewrite
  the record's embedded timestamp by that offset". For running the sender the
  embedded timestamp is taken to be the 64-bit value in the first eight bytes of a
  record.
\<close>

definition adjustTimestamp :: "byte list \<Rightarrow> int \<Rightarrow> byte list" where
  "adjustTimestamp codeColorBuffer clockSkew =
     bytesOfUInt64 (readUInt64 codeColorBuffer + word_of_int clockSkew) @ drop 8 codeColorBuffer"

text \<open>
  A node list, a jurisdiction map and a freshly constructed sender (lines 32-40, with
  the two limits as parameters: DEFAULT_MAX_PENDING_MESSAGES and MAX_PACKET_SIZE are
  declared elsewhere). The sample packet header is one byte.
\<close>

definition sampleNode :: "QUuid \<Rightarrow> int \<Rightarrow> Node" where
  "sampleNode k skew = \<lparr>uuid = k, nodeType = 77, hasActiveSocket = True, clockSkewUsec = skew\<rparr>"

definition sampleEnv :: "Node list \<Rightarrow> (QUuid \<Rightarrow> JurisdictionMap option) option \<Rightarrow> Env" where
  "sampleEnv nodes jurisdictions =
     \<lparr>nodeHash = nodes, myNodeType = 77, serverJurisdictions = jurisdictions,
      populatePacketHeader = (\<lambda>t. [case t of PacketTypeUnknown \<Rightarrow> 0 | PacketTypeKnown n \<Rightarrow> of_nat n]),
      numBytesForPacketHeader = (\<lambda>b. 1),
      adjustEditPacketForClockSkew = adjustTimestamp,
      usecTimestampNow = (\<lambda>n. 1000 + of_nat n),
      defaultEditPacketBuffer =
        \<lparr>nodeUUID = 0, currentType = PacketTypeUnknown, currentBuffer = []\<rparr>,
      defaultJurisdictionMap = (\<lambda>octCode. True)\<rparr>"

definition sampleSender :: "int \<Rightarrow> int \<Rightarrow> OctreeEditPacketSender" where
  "sampleSender maxPending maxSize =
     \<lparr>shouldSend = True, maxPendingMessages = maxPending,
      releaseQueuedMessagesPending = False, sequenceNumber = 0, maxPacketSize = maxSize,
      preServerSingleMessagePackets = [], preServerPackets = [], pendingEditPackets = [],
      packetsQueued = [], clockReads = 0\<rparr>"

text \<open>
  A stand-in for the per-entity decoder, for running the element decoder: an entity
  is four bytes, the first of which is its ID; with fewer than four bytes left the
  decoder uses none.
\<close>

definition sampleReadModel :: "byte list \<Rightarrow> int \<Rightarrow> int \<Rightarrow> ModelItem \<times> int" where
  "sampleReadModel data dataAt bytesLeftToRead =
     (if 4 \<le> bytesLeftToRead
      then (sampleItem (ucast (data ! nat dataAt)) 0 0 0 False, 4)
      else (sampleItem 0 0 0 0 False, 0))"

section \<open>Properties of the entity store\<close>

declare updateModel_loop.simps [simp del]
declare getClosestModel_loop.simps [simp del]
declare readElementData_loop.simps [simp del]

subsection \<open>The sweep\<close>

lemma update_loop_eq:
  "update_loop f t c kept items moving =
     (kept @ filter (\<lambda>m. \<not> (shouldDie m \<or> \<not> c (position m))) (map (f t) items),
      moving @ filter (\<lambda>m. shouldDie m \<or> \<not> c (position m)) (map (f t) items))"
  by (induction items arbitrary: kept moving) (auto simp: Let_def)

lemma update_eq:
  "update f now e moving =
     (e\<lparr>lastChanged := now,
        modelItems := filter (\<lambda>m. \<not> (shouldDie m \<or> \<not> boxContains e (position m)))
                        (map (f now) (modelItems e))\<rparr>,
      moving @ filter (\<lambda>m. shouldDie m \<or> \<not> boxContains e (position m))
                 (map (f now) (modelItems e)))"
  by (simp add: update_def markWithChangedTime_def update_loop_eq)

text \<open>
  Claim C8. After the sweep every entity left in the element is alive and inside the
  element's box, and the relocation list has grown by exactly the entities that were
  taken out: the entities left and the entities appended are together the (advanced)
  entities the element held, each as often as before, and every appended entity wants
  to die or has left the box.
\<close>

theorem update_sweeps_into_movingModels:
  assumes "update itemUpdate now e movingModels = (e', movingModels')"
  shows "(\<forall>m \<in> set (modelItems e'). \<not> shouldDie m \<and> boxContains e' (position m)) \<and>
         (\<exists>removed. movingModels' = movingModels @ removed \<and>
            mset (modelItems e') + mset removed = mset (map (itemUpdate now) (modelItems e)) \<and>
            (\<forall>m \<in> set removed. shouldDie m \<or> \<not> boxContains e (position m)))"
proof -
  let ?gone = "\<lambda>m. shouldDie m \<or> \<not> boxContains e (position m)"
  let ?adv = "map (itemUpdate now) (modelItems e)"
  from assms have kept: "modelItems e' = filter (\<lambda>m. \<not> ?gone m) ?adv"
    and box: "boxContains e' = boxContains e"
    and moved: "movingModels' = movingModels @ filter ?gone ?adv"
    by (auto simp: update_eq)
  have "\<forall>m \<in> set (modelItems e'). \<not> shouldDie m \<and> boxContains e' (position m)"
    by (simp add: kept box)
  moreover have "mset (modelItems e') + mset (filter ?gone ?adv) = mset ?adv"
    by (simp add: kept)
  moreover have "\<forall>m \<in> set (filter ?gone ?adv). ?gone m"
    by simp
  ultimately show ?thesis
    using moved by blast
qed

theorem update_sweeps_into_movingModels_witness:
  "update (\<lambda>t m. m) 7
      (sampleElement [sampleItem 1 0 0 0 False, sampleItem 2 0 0 0 True, sampleItem 3 0 0 5 False]) []
     = (\<lparr>modelItems = [sampleItem 1 0 0 0 False], lastChanged = 7,
         boxContains = (\<lambda>(x, y, z). 0 \<le> x \<and> x \<le> 1)\<rparr>,
        [sampleItem 2 0 0 0 True, sampleItem 3 0 0 5 False]) \<and>
   (\<exists>removed. [sampleItem 2 0 0 0 True, sampleItem 3 0 0 5 False] = [] @ removed \<and>
      mset [sampleItem 1 0 0 0 False] + mset removed =
        mset [sampleItem 1 0 0 0 False, sampleItem 2 0 0 0 True, sampleItem 3 0 0 5 False])"
proof -
  have run: "update (\<lambda>t m. m) 7
      (sampleElement [sampleItem 1 0 0 0 False, sampleItem 2 0 0 0 True, sampleItem 3 0 0 5 False]) []
     = (\<lparr>modelItems = [sampleItem 1 0 0 0 False], lastChanged = 7,
         boxContains = (\<lambda>(x, y, z). 0 \<le> x \<and> x \<le> 1)\<rparr>,
        [sampleItem 2 0 0 0 True, sampleItem 3 0 0 5 False])"
    by (simp add: update_def markWithChangedTime_def sampleElement_def sampleItem_def Let_def)
  from update_sweeps_into_movingModels [OF run] show ?thesis
    using run by (simp add: sampleElement_def)
qed

subsection \<open>The merge of a server edit\<close>

lemma updateModel_loop_absent:
  "\<forall>j. i \<le> j \<and> j < n \<longrightarrow> itemID (modelItems e ! j) \<noteq> itemID model \<Longrightarrow>
   updateModel_loop cp now model n i e = (False, e)"
proof (induction cp now model n i e rule: updateModel_loop.induct)
  case (1 cp now model n i e)
  show ?case
  proof (cases "i < n")
    case True
    with "1.prems" have ne: "itemID (modelItems e ! i) \<noteq> itemID model" by auto
    from "1.prems" have "\<forall>j. i + 1 \<le> j \<and> j < n \<longrightarrow> itemID (modelItems e ! j) \<noteq> itemID model"
      by auto
    with "1.IH" True ne have "updateModel_loop cp now model n (i + 1) e = (False, e)"
      by simp
    with True ne show ?thesis
      by (subst updateModel_loop.simps) (simp add: Let_def)
  next
    case False
    then show ?thesis by (subst updateModel_loop.simps) simp
  qed
qed

lemma updateModel_loop_present:
  "i \<le> k \<Longrightarrow> k < n \<Longrightarrow> itemID (modelItems e ! k) = itemID model \<Longrightarrow>
   \<forall>j. i \<le> j \<and> j < k \<longrightarrow> itemID (modelItems e ! j) \<noteq> itemID model \<Longrightarrow>
   updateModel_loop cp now model n i e =
     (True, if lastEdited (modelItems e ! k) < lastEdited model \<or>
               lastUpdated (modelItems e ! k) < lastUpdated model
            then e\<lparr>modelItems := (modelItems e)[k := cp (modelItems e ! k) model],
                   lastChanged := now\<rparr>
            else e)"
proof (induction cp now model n i e rule: updateModel_loop.induct)
  case (1 cp now model n i e)
  show ?case
  proof (cases "i = k")
    case True
    with "1.prems" show ?thesis
      by (subst updateModel_loop.simps) (simp add: Let_def markWithChangedTime_def)
  next
    case False
    with "1.prems" have lt: "i < k" and ne: "itemID (modelItems e ! i) \<noteq> itemID model"
      by auto
    from lt "1.prems" have "i < n" by simp
    moreover from "1.prems" lt
    have "\<forall>j. i + 1 \<le> j \<and> j < k \<longrightarrow> itemID (modelItems e ! j) \<noteq> itemID model" by auto
    ultimately show ?thesis
      using "1.IH" [OF \<open>i < n\<close> refl ne] "1.prems" lt ne
      by (subst updateModel_loop.simps) (simp add: Let_def)
  qed
qed

lemma first_match_exists:
  "\<exists>m\<in>set xs. P m \<Longrightarrow> \<exists>k<length xs. P (xs ! k) \<and> (\<forall>j<k. \<not> P (xs ! j))"
proof (induction xs)
  case Nil
  then show ?case by simp
next
  case (Cons x xs)
  show ?case
  proof (cases "P x")
    case True
    then have "0 < length (x # xs) \<and> P ((x # xs) ! 0) \<and> (\<forall>j<0. \<not> P ((x # xs) ! j))"
      by simp
    then show ?thesis by blast
  next
    case False
    with Cons.prems have "\<exists>m\<in>set xs. P m" by simp
    from Cons.IH [OF this] obtain k where
      k: "k < length xs" "P (xs ! k)" "\<forall>j<k. \<not> P (xs ! j)" by blast
    have "\<forall>j<Suc k. \<not> P ((x # xs) ! j)"
    proof (intro allI impI)
      fix j assume "j < Suc k"
      then show "\<not> P ((x # xs) ! j)" using False k(3) by (cases j) simp_all
    qed
    with k(1,2) have "Suc k < length (x # xs) \<and> P ((x # xs) ! Suc k) \<and>
        (\<forall>j<Suc k. \<not> P ((x # xs) ! j))" by simp
    then show ?thesis by blast
  qed
qed

text \<open>
  Claim C1. For an element holding fewer than 65536 entities (the range of the
  uint16_t loop bound): if no stored entity has the incoming ID, updateModel changes
  nothing and returns false; otherwise it returns true, and with k the first index
  whose entity has that ID, the entity at k is overwritten by copyChangedProperties
  (and the element's change time is bumped) exactly when the stored lastEdited or the
  stored lastUpdated is strictly less than the incoming one, and the element is left
  as it was otherwise.
\<close>

theorem updateModel_first_match:
  assumes "length (modelItems e) < 65536"
  shows "((\<forall>m \<in> set (modelItems e). itemID m \<noteq> itemID model) \<longrightarrow>
            updateModel cp now model e = (False, e)) \<and>
         ((\<exists>m \<in> set (modelItems e). itemID m = itemID model) \<longrightarrow>
            (\<exists>k<length (modelItems e).
               itemID (modelItems e ! k) = itemID model \<and>
               (\<forall>j<k. itemID (modelItems e ! j) \<noteq> itemID model) \<and>
               updateModel cp now model e =
                 (True, if lastEdited (modelItems e ! k) < lastEdited model \<or>
                           lastUpdated (modelItems e ! k) < lastUpdated model
                        then e\<lparr>modelItems := (modelItems e)[k := cp (modelItems e ! k) model],
                               lastChanged := now\<rparr>
                        else e)))"
proof (intro conjI impI)
  from assms have n: "numberOfModels16 (modelItems e) = length (modelItems e)"
    by (simp add: numberOfModels16_def)
  {
    assume "\<forall>m \<in> set (modelItems e). itemID m \<noteq> itemID model"
    then have "\<forall>j. 0 \<le> j \<and> j < length (modelItems e) \<longrightarrow>
        itemID (modelItems e ! j) \<noteq> itemID model" by simp
    then show "updateModel cp now model e = (False, e)"
      unfolding updateModel_def n by (rule updateModel_loop_absent)
  }
  {
    assume "\<exists>m \<in> set (modelItems e). itemID m = itemID model"
    from first_match_exists [of "modelItems e" "\<lambda>m. itemID m = itemID model", OF this]
    obtain k where k: "k < length (modelItems e)" "itemID (modelItems e ! k) = itemID model"
      "\<forall>j<k. itemID (modelItems e ! j) \<noteq> itemID model" by blast
    from k(3) have "\<forall>j. 0 \<le> j \<and> j < k \<longrightarrow> itemID (modelItems e ! j) \<noteq> itemID model"
      by simp
    from updateModel_loop_present [OF le0 k(1) k(2) this, of cp now]
    have "updateModel cp now model e =
        (True, if lastEdited (modelItems e ! k) < lastEdited model \<or>
                  lastUpdated (modelItems e ! k) < lastUpdated model
               then e\<lparr>modelItems := (modelItems e)[k := cp (modelItems e ! k) model],
                      lastChanged := now\<rparr>
               else e)"
      unfolding updateModel_def n .
    with k show "\<exists>k<length (modelItems e).
               itemID (modelItems e ! k) = itemID model \<and>
               (\<forall>j<k. itemID (modelItems e ! j) \<noteq> itemID model) \<and>
               updateModel cp now model e =
                 (True, if lastEdited (modelItems e ! k) < lastEdited model \<or>
                           lastUpdated (modelItems e ! k) < lastUpdated model
                        then e\<lparr>modelItems := (modelItems e)[k := cp (modelItems e ! k) model],
                               lastChanged := now\<rparr>
                        else e)" by blast
  }
qed

text \<open>
  The theorem at an element of two entities and an incoming entity with a newer
  lastEdited for the second one.
\<close>

theorem updateModel_first_match_witness:
  "length (modelItems (sampleElement [sampleItem 1 5 5 0 False, sampleItem 2 5 5 0 False])) < 65536 \<and>
   (\<exists>m \<in> set (modelItems (sampleElement [sampleItem 1 5 5 0 False, sampleItem 2 5 5 0 False])).
      itemID m = itemID (sampleItem 2 7 5 1 False)) \<and>
   updateModel copyChangedProperties 9 (sampleItem 2 7 5 1 False)
     (sampleElement [sampleItem 1 5 5 0 False, sampleItem 2 5 5 0 False])
    = (True, (sampleElement [sampleItem 1 5 5 0 False, sampleItem 2 7 5 1 False])\<lparr>lastChanged := 9\<rparr>)"
proof -
  let ?e = "sampleElement [sampleItem 1 5 5 0 False, sampleItem 2 5 5 0 False]"
  let ?u = "sampleItem 2 7 5 1 False"
  have len: "length (modelItems ?e) < 65536"
    by (simp add: sampleElement_def)
  have ex: "\<exists>m \<in> set (modelItems ?e). itemID m = itemID ?u"
    by (simp add: sampleElement_def sampleItem_def)
  from updateModel_first_match [OF len, of ?u copyChangedProperties 9] ex
  obtain k where k: "k < length (modelItems ?e)" "itemID (modelItems ?e ! k) = itemID ?u"
    and run: "updateModel copyChangedProperties 9 ?u ?e =
      (True, if lastEdited (modelItems ?e ! k) < lastEdited ?u \<or>
                lastUpdated (modelItems ?e ! k) < lastUpdated ?u
             then ?e\<lparr>modelItems := (modelItems ?e)[k := copyChangedProperties (modelItems ?e ! k) ?u],
                     lastChanged := 9\<rparr>
             else ?e)"
    by blast
  from k(1) have "k = 0 \<or> k = 1"
    by (auto simp: sampleElement_def)
  with k(2) have "k = 1"
    by (auto simp: sampleElement_def sampleItem_def)
  with run have "updateModel copyChangedProperties 9 ?u ?e =
      (True, (sampleElement [sampleItem 1 5 5 0 False, ?u])\<lparr>lastChanged := 9\<rparr>)"
    by (simp add: sampleElement_def sampleItem_def copyChangedProperties_def)
  with len ex show ?thesis by blast
qed

text \<open>
  Without the bound on the number of entities the claim fails: an element holding
  65536 entities of ID 1 has numberOfModels = 0 after the conversion to uint16_t, the
  loop body never runs, and updateModel reports not-found for an incoming entity of
  ID 1.
\<close>

theorem updateModel_first_match_counterexample:
  "\<not> (\<forall>e model. (\<exists>m \<in> set (modelItems e). itemID m = itemID model) \<longrightarrow>
         fst (updateModel copyChangedProperties 0 model e))"
proof
  assume a: "\<forall>e model. (\<exists>m \<in> set (modelItems e). itemID m = itemID model) \<longrightarrow>
         fst (updateModel copyChangedProperties 0 model e)"
  let ?e = "sampleElement (replicate 65536 (sampleItem 1 0 0 0 False))"
  have "\<exists>m \<in> set (modelItems ?e). itemID m = itemID (sampleItem 1 1 1 0 False)"
    by (simp add: sampleElement_def sampleItem_def)
  with a have "fst (updateModel copyChangedProperties 0 (sampleItem 1 1 1 0 False) ?e)"
    by blast
  moreover have "updateModel copyChangedProperties 0 (sampleItem 1 1 1 0 False) ?e = (False, ?e)"
    by (simp add: updateModel_def numberOfModels16_def sampleElement_def updateModel_loop.simps)
  ultimately show False by simp
qed

lemma updateModel_none:
  assumes "\<forall>j<numberOfModels16 (modelItems e). itemID (modelItems e ! j) \<noteq> itemID u"
  shows "updateModel cp t u e = (False, e)"
  unfolding updateModel_def using assms by (intro updateModel_loop_absent) simp

lemma updateModel_at:
  assumes "k < numberOfModels16 (modelItems e)" "itemID (modelItems e ! k) = itemID u"
    "\<forall>j<k. itemID (modelItems e ! j) \<noteq> itemID u"
  shows "updateModel cp t u e =
     (True, if lastEdited (modelItems e ! k) < lastEdited u \<or>
               lastUpdated (modelItems e ! k) < lastUpdated u
            then e\<lparr>modelItems := (modelItems e)[k := cp (modelItems e ! k) u], lastChanged := t\<rparr>
            else e)"
  unfolding updateModel_def using assms by (intro updateModel_loop_present) simp_all

lemma numberOfModels16_le: "numberOfModels16 xs \<le> length xs"
  by (simp add: numberOfModels16_def)

lemma first_index_below:
  assumes "\<exists>j<(n::nat). Q j"
  shows "\<exists>k<n. Q k \<and> (\<forall>j<k. \<not> Q j)"
proof -
  from assms have "\<exists>j. j < n \<and> Q j" by blast
  then have "\<exists>k. (k < n \<and> Q k) \<and> (\<forall>j<k. \<not> (j < n \<and> Q j))"
    by (rule iffD1 [OF exists_least_iff])
  then obtain k where k: "k < n" "Q k" "\<forall>j<k. \<not> (j < n \<and> Q j)" by blast
  from k(1,3) have "\<forall>j<k. \<not> Q j" by auto
  with k show ?thesis by blast
qed

text \<open>One application, seen at the first index whose entity has the incoming ID.\<close>

lemma updateModel_items_at:
  assumes "k < numberOfModels16 (modelItems e)" "itemID (modelItems e ! k) = itemID u"
    "\<forall>j<k. itemID (modelItems e ! j) \<noteq> itemID u"
  shows "modelItems (snd (updateModel cp t u e)) =
     (modelItems e)[k := (if lastEdited (modelItems e ! k) < lastEdited u \<or>
                             lastUpdated (modelItems e ! k) < lastUpdated u
                          then cp (modelItems e ! k) u else modelItems e ! k)]"
  by (simp add: updateModel_at [OF assms])

lemma updateModel_keeps_first_index:
  assumes k: "k < numberOfModels16 (modelItems e)" "itemID (modelItems e ! k) = itemID u"
    "\<forall>j<k. itemID (modelItems e ! j) \<noteq> itemID u"
    and ident: "\<And>l v. itemID l = itemID v \<Longrightarrow> itemID (cp l v) = itemID v"
  shows "k < numberOfModels16 (modelItems (snd (updateModel cp t u e))) \<and>
         itemID (modelItems (snd (updateModel cp t u e)) ! k) = itemID u \<and>
         (\<forall>j<k. itemID (modelItems (snd (updateModel cp t u e)) ! j) \<noteq> itemID u)"
proof -
  from k(1) have kl: "k < length (modelItems e)"
    using numberOfModels16_le [of "modelItems e"] by simp
  show ?thesis
    using k kl ident [OF k(2)]
    by (simp add: updateModel_items_at [OF k] numberOfModels16_def)
qed

text \<open>
  Claim C2. The merge is idempotent: applying an update a second time leaves the
  element exactly as the first application left it. It is order independent for two
  updates of one ID when one of them is at least as recent as the other in both
  timestamps and strictly more recent in one of them. Both hold for every
  copyChangedProperties that carries the incoming timestamps and ID over to the stored
  entity and whose result does not depend on what an earlier overwrite had stored.
\<close>

theorem updateModel_idempotent_ordered_commutative:
  assumes ts: "\<And>l v. lastEdited (cp l v) = lastEdited v \<and> lastUpdated (cp l v) = lastUpdated v"
    and ident: "\<And>l v. itemID l = itemID v \<Longrightarrow> itemID (cp l v) = itemID v"
    and absorb: "\<And>l v w. cp (cp l v) w = cp l w"
  shows "snd (updateModel cp t2 u (snd (updateModel cp t1 u e))) = snd (updateModel cp t1 u e) \<and>
         (itemID u1 = itemID u2 \<and> lastEdited u1 \<le> lastEdited u2 \<and> lastUpdated u1 \<le> lastUpdated u2 \<and>
          (lastEdited u1 < lastEdited u2 \<or> lastUpdated u1 < lastUpdated u2) \<longrightarrow>
            modelItems (snd (updateModel cp t2 u2 (snd (updateModel cp t1 u1 e)))) =
            modelItems (snd (updateModel cp t4 u1 (snd (updateModel cp t3 u2 e)))))"
proof (intro conjI impI)
  show "snd (updateModel cp t2 u (snd (updateModel cp t1 u e))) = snd (updateModel cp t1 u e)"
  proof (cases "\<exists>j<numberOfModels16 (modelItems e). itemID (modelItems e ! j) = itemID u")
    case False
    then have "updateModel cp t u e = (False, e)" for t
      by (intro updateModel_none) simp
    then show ?thesis by simp
  next
    case True
    from first_index_below [OF True] obtain k where
      k: "k < numberOfModels16 (modelItems e)" "itemID (modelItems e ! k) = itemID u"
         "\<forall>j<k. itemID (modelItems e ! j) \<noteq> itemID u" by blast
    let ?e1 = "snd (updateModel cp t1 u e)"
    from updateModel_keeps_first_index [OF k ident, where t = t1]
    have k1: "k < numberOfModels16 (modelItems ?e1)" "itemID (modelItems ?e1 ! k) = itemID u"
         "\<forall>j<k. itemID (modelItems ?e1 ! j) \<noteq> itemID u" by simp_all
    from k(1) have kl: "k < length (modelItems e)"
      using numberOfModels16_le [of "modelItems e"] by simp
    have "\<not> (lastEdited (modelItems ?e1 ! k) < lastEdited u \<or>
              lastUpdated (modelItems ?e1 ! k) < lastUpdated u)"
      using kl ts by (simp add: updateModel_items_at [OF k])
    then show ?thesis
      by (simp add: updateModel_at [OF k1])
  qed
next
  assume dom: "itemID u1 = itemID u2 \<and> lastEdited u1 \<le> lastEdited u2 \<and>
     lastUpdated u1 \<le> lastUpdated u2 \<and>
     (lastEdited u1 < lastEdited u2 \<or> lastUpdated u1 < lastUpdated u2)"
  show "modelItems (snd (updateModel cp t2 u2 (snd (updateModel cp t1 u1 e)))) =
        modelItems (snd (updateModel cp t4 u1 (snd (updateModel cp t3 u2 e))))"
  proof (cases "\<exists>j<numberOfModels16 (modelItems e). itemID (modelItems e ! j) = itemID u1")
    case False
    then have "updateModel cp t u1 e = (False, e)" "updateModel cp t u2 e = (False, e)" for t
      using dom by (auto intro!: updateModel_none)
    then show ?thesis by simp
  next
    case True
    from first_index_below [OF True] obtain k where
      k: "k < numberOfModels16 (modelItems e)" "itemID (modelItems e ! k) = itemID u1"
         "\<forall>j<k. itemID (modelItems e ! j) \<noteq> itemID u1" by blast
    from k dom have k': "k < numberOfModels16 (modelItems e)" "itemID (modelItems e ! k) = itemID u2"
         "\<forall>j<k. itemID (modelItems e ! j) \<noteq> itemID u2" by simp_all
    from k(1) have kl: "k < length (modelItems e)"
      using numberOfModels16_le [of "modelItems e"] by simp
    let ?a = "snd (updateModel cp t1 u1 e)"
    let ?b = "snd (updateModel cp t3 u2 e)"
    from updateModel_keeps_first_index [OF k ident, where t = t1] dom
    have ka: "k < numberOfModels16 (modelItems ?a)" "itemID (modelItems ?a ! k) = itemID u2"
         "\<forall>j<k. itemID (modelItems ?a ! j) \<noteq> itemID u2" by simp_all
    from updateModel_keeps_first_index [OF k' ident, where t = t3] dom
    have kb: "k < numberOfModels16 (modelItems ?b)" "itemID (modelItems ?b ! k) = itemID u1"
         "\<forall>j<k. itemID (modelItems ?b ! j) \<noteq> itemID u1" by simp_all
    let ?l = "modelItems e ! k"
    have a: "modelItems ?a = (modelItems e)[k := (if lastEdited ?l < lastEdited u1 \<or>
         lastUpdated ?l < lastUpdated u1 then cp ?l u1 else ?l)]"
      by (rule updateModel_items_at [OF k])
    have b: "modelItems ?b = (modelItems e)[k := (if lastEdited ?l < lastEdited u2 \<or>
         lastUpdated ?l < lastUpdated u2 then cp ?l u2 else ?l)]"
      by (rule updateModel_items_at [OF k'])
    show ?thesis
      unfolding updateModel_items_at [OF ka] updateModel_items_at [OF kb] a b
      using kl dom ts absorb by (auto simp: not_less)
  qed
qed


text \<open>
  The theorem with the copy modelled from the spec, on a stored entity with timestamps
  (5, 5) and updates with timestamps (7, 5) and (7, 8).
\<close>

theorem updateModel_idempotent_ordered_commutative_witness:
  "snd (updateModel copyChangedProperties 2 (sampleItem 1 7 5 0 False)
          (snd (updateModel copyChangedProperties 1 (sampleItem 1 7 5 0 False)
                  (sampleElement [sampleItem 1 5 5 0 False]))))
     = snd (updateModel copyChangedProperties 1 (sampleItem 1 7 5 0 False)
              (sampleElement [sampleItem 1 5 5 0 False])) \<and>
   itemID (sampleItem 1 7 5 0 False) = itemID (sampleItem 1 7 8 1 False) \<and>
   lastEdited (sampleItem 1 7 5 0 False) \<le> lastEdited (sampleItem 1 7 8 1 False) \<and>
   lastUpdated (sampleItem 1 7 5 0 False) < lastUpdated (sampleItem 1 7 8 1 False) \<and>
   modelItems (snd (updateModel copyChangedProperties 2 (sampleItem 1 7 8 1 False)
      (snd (updateModel copyChangedProperties 1 (sampleItem 1 7 5 0 False)
              (sampleElement [sampleItem 1 5 5 0 False])))))
     = modelItems (snd (updateModel copyChangedProperties 4 (sampleItem 1 7 5 0 False)
         (snd (updateModel copyChangedProperties 3 (sampleItem 1 7 8 1 False)
                 (sampleElement [sampleItem 1 5 5 0 False])))))"
proof -
  have ts: "\<And>l v. lastEdited (copyChangedProperties l v) = lastEdited v \<and>
      lastUpdated (copyChangedProperties l v) = lastUpdated v"
    and ident: "\<And>l v. itemID l = itemID v \<Longrightarrow> itemID (copyChangedProperties l v) = itemID v"
    and absorb: "\<And>l v w. copyChangedProperties (copyChangedProperties l v) w = copyChangedProperties l w"
    by (simp_all add: copyChangedProperties_def)
  have dom: "itemID (sampleItem 1 7 5 0 False) = itemID (sampleItem 1 7 8 1 False) \<and>
      lastEdited (sampleItem 1 7 5 0 False) \<le> lastEdited (sampleItem 1 7 8 1 False) \<and>
      lastUpdated (sampleItem 1 7 5 0 False) < lastUpdated (sampleItem 1 7 8 1 False)"
    by (simp add: sampleItem_def)
  have le: "lastUpdated (sampleItem 1 7 5 0 False) \<le> lastUpdated (sampleItem 1 7 8 1 False)"
    by (simp add: sampleItem_def)
  from updateModel_idempotent_ordered_commutative [of copyChangedProperties, OF ts ident absorb,
      where ?t1.0 = 1 and ?t2.0 = 2 and ?t3.0 = 3 and ?t4.0 = 4 and u = "sampleItem 1 7 5 0 False"
        and e = "sampleElement [sampleItem 1 5 5 0 False]"
        and ?u1.0 = "sampleItem 1 7 5 0 False" and ?u2.0 = "sampleItem 1 7 8 1 False"] dom le
  show ?thesis by blast
qed

text \<open>
  Unrestricted order independence fails: a stored entity with timestamps (0, 0),
  one update that is newer only in lastEdited, (1, 0), and one that is newer only in
  lastUpdated, (0, 1). Here each is accepted over the other, and the update applied
  last is the one stored.
\<close>

theorem updateModel_commutative_counterexample:
  "\<not> (\<forall>e u1 u2. itemID u1 = itemID u2 \<longrightarrow>
        modelItems (snd (updateModel copyChangedProperties 0 u2
                           (snd (updateModel copyChangedProperties 0 u1 e)))) =
        modelItems (snd (updateModel copyChangedProperties 0 u1
                           (snd (updateModel copyChangedProperties 0 u2 e)))))"
proof
  assume a: "\<forall>e u1 u2. itemID u1 = itemID u2 \<longrightarrow>
        modelItems (snd (updateModel copyChangedProperties 0 u2
                           (snd (updateModel copyChangedProperties 0 u1 e)))) =
        modelItems (snd (updateModel copyChangedProperties 0 u1
                           (snd (updateModel copyChangedProperties 0 u2 e))))"
  let ?e = "sampleElement [sampleItem 1 0 0 0 False]"
  let ?u1 = "sampleItem 1 1 0 0 False"
  let ?u2 = "sampleItem 1 0 1 0 False"
  have "itemID ?u1 = itemID ?u2" by (simp add: sampleItem_def)
  with a have "modelItems (snd (updateModel copyChangedProperties 0 ?u2
                           (snd (updateModel copyChangedProperties 0 ?u1 ?e)))) =
        modelItems (snd (updateModel copyChangedProperties 0 ?u1
                           (snd (updateModel copyChangedProperties 0 ?u2 ?e))))" by blast
  moreover have "modelItems (snd (updateModel copyChangedProperties 0 ?u2
                           (snd (updateModel copyChangedProperties 0 ?u1 ?e)))) = [?u2]"
    by (simp add: updateModel_def numberOfModels16_def sampleElement_def sampleItem_def
        updateModel_loop.simps copyChangedProperties_def markWithChangedTime_def)
  moreover have "modelItems (snd (updateModel copyChangedProperties 0 ?u1
                           (snd (updateModel copyChangedProperties 0 ?u2 ?e)))) = [?u1]"
    by (simp add: updateModel_def numberOfModels16_def sampleElement_def sampleItem_def
        updateModel_loop.simps copyChangedProperties_def markWithChangedTime_def)
  ultimately have "[?u2] = [?u1]" by simp
  then show False by (simp add: sampleItem_def)
qed

subsection \<open>The closest-entity scan\<close>

text \<open>
  Claim C10. For a query at the origin and an element with entities at distance 1
  (index 0) and at distance 2 (index 1), getClosestModel returns the entity at
  index 1, which is not the closest: every entity nearer than FLT_MAX replaces the
  candidate, because closestModelDistance is never lowered.
\<close>

theorem getClosestModel_returns_last_in_range:
  "getClosestModel (0, 0, 0)
     (sampleElement [sampleItem 1 0 0 1 False, sampleItem 2 0 0 2 False]) = Some 1 \<and>
   glm_distance (0, 0, 0)
     (position (modelItems (sampleElement [sampleItem 1 0 0 1 False, sampleItem 2 0 0 2 False]) ! 0))
   < glm_distance (0, 0, 0)
     (position (modelItems (sampleElement [sampleItem 1 0 0 1 False, sampleItem 2 0 0 2 False]) ! 1))"
  by (simp add: getClosestModel_def numberOfModels16_def sampleElement_def sampleItem_def
      getClosestModel_loop.simps glm_distance_def FLT_MAX_def)

subsection \<open>Decoding\<close>

lemma int32_in_range: "- 2147483648 \<le> x \<Longrightarrow> x < 2147483648 \<Longrightarrow> int32 x = x"
  by (simp add: int32_def)

lemma readElementData_loop_char:
  assumes contract: "\<And>off left. 0 \<le> left \<Longrightarrow>
      0 \<le> snd (rd data off left) \<and> snd (rd data off left) \<le> left"
    and "0 \<le> left" "2 \<le> off" "off + left = room"
    and "0 \<le> bytesRead" "bytesRead + left < 2147483648"
    and "readElementData_loop rd data n i off left bytesRead stored calls = (r, st, cs)"
  shows "\<exists>new. cs = calls @ new \<and> length new = n - i \<and>
           st = stored @ map (\<lambda>(off, left). fst (rd data off left)) new \<and>
           r = bytesRead + sum_list (map (\<lambda>(off, left). snd (rd data off left)) new) \<and>
           sum_list (map (\<lambda>(off, left). snd (rd data off left)) new) \<le> left \<and>
           0 \<le> sum_list (map (\<lambda>(off, left). snd (rd data off left)) new) \<and>
           (\<forall>(off, left) \<in> set new. 2 \<le> off \<and> 0 \<le> left \<and> off + left = room)"
  using assms
proof (induction rd data n i off left bytesRead stored calls rule: readElementData_loop.induct)
  case (1 rd data n i off left bytesRead stored calls)
  note contract = "1.prems"(1)
  show ?case
  proof (cases "i < n")
    case False
    with "1.prems"(7) have "r = bytesRead" "st = stored" "cs = calls"
      by (simp_all add: readElementData_loop.simps)
    with False "1.prems"(2) show ?thesis by simp
  next
    case True
    obtain m c where rd: "rd data off left = (m, c)" by (cases "rd data off left")
    from contract [OF "1.prems"(2), of off] rd have c: "0 \<le> c" "c \<le> left" by simp_all
    from c "1.prems"(2,5,6) have w: "int32 (left - c) = left - c" "int32 (bytesRead + c) = bytesRead + c"
      by (simp_all add: int32_in_range)
    from True rd "1.prems"(7)
    have run: "readElementData_loop rd data n (i + 1) (off + c) (left - c) (bytesRead + c)
        (stored @ [m]) (calls @ [(off, left)]) = (r, st, cs)"
      by (subst (asm) readElementData_loop.simps) (simp add: w)
    from c "1.prems"(3,4) have pre: "0 \<le> left - c" "2 \<le> off + c" "off + c + (left - c) = room"
      by simp_all
    from c "1.prems"(5,6) have pre2: "0 \<le> bytesRead + c" "bytesRead + c + (left - c) < 2147483648"
      by simp_all
    note IH = "1.IH" [OF True rd [symmetric], unfolded w]
    from IH [OF contract pre pre2 run]
    obtain new where new: "cs = (calls @ [(off, left)]) @ new" "length new = n - (i + 1)"
      "st = (stored @ [m]) @ map (\<lambda>(off, left). fst (rd data off left)) new"
      "r = bytesRead + c + sum_list (map (\<lambda>(off, left). snd (rd data off left)) new)"
      "sum_list (map (\<lambda>(off, left). snd (rd data off left)) new) \<le> left - c"
      "0 \<le> sum_list (map (\<lambda>(off, left). snd (rd data off left)) new)"
      "\<forall>(off, left) \<in> set new. 2 \<le> off \<and> 0 \<le> left \<and> off + left = room"
      by blast
    let ?new = "(off, left) # new"
    have "cs = calls @ ?new" using new(1) by simp
    moreover have "length ?new = n - i" using new(2) True by simp
    moreover have "st = stored @ map (\<lambda>(off, left). fst (rd data off left)) ?new"
      using new(3) rd by simp
    moreover have "r = bytesRead + sum_list (map (\<lambda>(off, left). snd (rd data off left)) ?new)"
      using new(4) rd by simp
    moreover have "sum_list (map (\<lambda>(off, left). snd (rd data off left)) ?new) \<le> left"
      using new(5) rd by simp
    moreover have "0 \<le> sum_list (map (\<lambda>(off, left). snd (rd data off left)) ?new)"
      using new(6) rd c by simp
    moreover have "\<forall>(off, left) \<in> set ?new. 2 \<le> off \<and> 0 \<le> left \<and> off + left = room"
      using new(7) "1.prems"(2,3,4) by simp
    ultimately show ?thesis by blast
  qed
qed

text \<open>
  Claim C7. For a remaining-byte count within the range of an int, and provided the
  per-entity decoder never uses more bytes than the remaining-byte count it is given:
  with fewer than two bytes left nothing is read and 0 is returned; when the bytes left
  after the count do not cover count times expectedBytes, the product taken as the
  32-bit int arithmetic of the source gives it, no entity is decoded and 2 is returned;
  otherwise the decoder is called count times, one entity after the other. For an
  expectedBytes that is not negative and a product below 2^31 the 32-bit product is the
  product. In every case the entities stored are those the calls decoded, the returned
  number is 2 plus the bytes the calls used and lies between 2 and bytesLeftToRead, and
  every call is made at an offset behind the count with a remaining-byte count that is
  not negative and ends exactly at bytesLeftToRead, so no read goes past the provided
  length.
\<close>

theorem readElementDataFromBuffer_accounting:
  assumes contract: "\<And>off left. 0 \<le> left \<Longrightarrow>
      0 \<le> snd (rd data off left) \<and> snd (rd data off left) \<le> left"
    and range: "bytesLeftToRead < 2147483648"
    and res: "readElementDataFromBuffer rd expectedBytes data bytesLeftToRead =
                (bytesRead, stored, calls)"
  shows "(bytesLeftToRead < 2 \<longrightarrow> bytesRead = 0 \<and> stored = [] \<and> calls = []) \<and>
         (2 \<le> bytesLeftToRead \<and>
          bytesLeftToRead - 2 < int32 (int (readUInt16 data 0) * expectedBytes) \<longrightarrow>
            bytesRead = 2 \<and> stored = [] \<and> calls = []) \<and>
         (2 \<le> bytesLeftToRead \<and>
          int32 (int (readUInt16 data 0) * expectedBytes) \<le> bytesLeftToRead - 2 \<longrightarrow>
            length calls = readUInt16 data 0) \<and>
         (0 \<le> expectedBytes \<and> int (readUInt16 data 0) * expectedBytes < 2147483648 \<longrightarrow>
            int32 (int (readUInt16 data 0) * expectedBytes) =
              int (readUInt16 data 0) * expectedBytes) \<and>
         (2 \<le> bytesLeftToRead \<longrightarrow>
            bytesRead = 2 + sum_list (map (\<lambda>(off, left). snd (rd data off left)) calls) \<and>
            2 \<le> bytesRead \<and> bytesRead \<le> bytesLeftToRead) \<and>
         stored = map (\<lambda>(off, left). fst (rd data off left)) calls \<and>
         (\<forall>(off, left) \<in> set calls. 2 \<le> off \<and> 0 \<le> left \<and> off + left = bytesLeftToRead)"
proof -
  have product: "0 \<le> expectedBytes \<and> int (readUInt16 data 0) * expectedBytes < 2147483648 \<longrightarrow>
      int32 (int (readUInt16 data 0) * expectedBytes) = int (readUInt16 data 0) * expectedBytes"
  proof
    assume a: "0 \<le> expectedBytes \<and> int (readUInt16 data 0) * expectedBytes < 2147483648"
    then have "0 \<le> int (readUInt16 data 0) * expectedBytes" by simp
    then have "- 2147483648 \<le> int (readUInt16 data 0) * expectedBytes" by linarith
    with a show "int32 (int (readUInt16 data 0) * expectedBytes) =
        int (readUInt16 data 0) * expectedBytes"
      by (intro int32_in_range) simp_all
  qed
  show ?thesis
  proof (cases "2 \<le> bytesLeftToRead")
    case False
    with res product show ?thesis by (auto simp: readElementDataFromBuffer_def)
  next
    case two: True
    show ?thesis
    proof (cases "int32 (int (readUInt16 data 0) * expectedBytes) \<le> bytesLeftToRead - 2")
      case False
      with two res product show ?thesis by (auto simp: readElementDataFromBuffer_def Let_def)
    next
      case True
      with two res have run: "readElementData_loop rd data (readUInt16 data 0) 0 2
          (bytesLeftToRead - 2) 2 [] [] = (bytesRead, stored, calls)"
        by (simp add: readElementDataFromBuffer_def Let_def)
      from two have pre: "0 \<le> bytesLeftToRead - 2" "(2::int) \<le> 2"
          "2 + (bytesLeftToRead - 2) = bytesLeftToRead"
        by simp_all
      from range have pre2: "(0::int) \<le> 2" "2 + (bytesLeftToRead - 2) < 2147483648"
        by simp_all
      from readElementData_loop_char [OF contract pre pre2 run]
      have ch: "length calls = readUInt16 data 0"
        "stored = map (\<lambda>(off, left). fst (rd data off left)) calls"
        "bytesRead = 2 + sum_list (map (\<lambda>(off, left). snd (rd data off left)) calls)"
        "sum_list (map (\<lambda>(off, left). snd (rd data off left)) calls) \<le> bytesLeftToRead - 2"
        "0 \<le> sum_list (map (\<lambda>(off, left). snd (rd data off left)) calls)"
        "\<forall>(off, left) \<in> set calls. 2 \<le> off \<and> 0 \<le> left \<and> off + left = bytesLeftToRead"
        by auto
      from two True ch product show ?thesis by auto
    qed
  qed
qed

text \<open>
  The theorem on a buffer with count 2 and two whole four-byte entities.
\<close>

theorem readElementDataFromBuffer_accounting_witness:
  "(10::int) < 2147483648 \<and>
   readElementDataFromBuffer sampleReadModel 4 [2, 0, 1, 0, 0, 0, 2, 0, 0, 0] 10 =
     (10, [sampleItem 1 0 0 0 False, sampleItem 2 0 0 0 False], [(2, 8), (6, 4)]) \<and>
   int32 (int (readUInt16 [2, 0, 1, 0, 0, 0, 2, 0, 0, 0] 0) * 4) = 8 \<and>
   length [(2::int, 8::int), (6, 4)] = readUInt16 [2, 0, 1, 0, 0, 0, 2, 0, 0, 0] 0 \<and>
   (10::int) = 2 + sum_list (map (\<lambda>(off, left).
       snd (sampleReadModel [2, 0, 1, 0, 0, 0, 2, 0, 0, 0] off left)) [(2, 8), (6, 4)]) \<and>
   (10::int) \<le> 10"
proof -
  let ?data = "[2, 0, 1, 0, 0, 0, 2, 0, 0, 0] :: byte list"
  have contract: "\<And>off left. 0 \<le> left \<Longrightarrow>
      0 \<le> snd (sampleReadModel ?data off left) \<and> snd (sampleReadModel ?data off left) \<le> left"
    by (simp add: sampleReadModel_def)
  have range: "(10::int) < 2147483648" by simp
  have run: "readElementDataFromBuffer sampleReadModel 4 ?data 10 =
     (10, [sampleItem 1 0 0 0 False, sampleItem 2 0 0 0 False], [(2, 8), (6, 4)])"
    by (simp add: readElementDataFromBuffer_def readUInt16_def readElementData_loop.simps
        sampleReadModel_def int32_def Let_def)
  have n: "int32 (int (readUInt16 ?data 0) * 4) = 8"
    by (simp add: readUInt16_def int32_def)
  from readElementDataFromBuffer_accounting [OF contract range run] n run
  show ?thesis by simp
qed

text \<open>
  The decoder does not stop in front of the first entity that would overrun: the test
  is made once, before the loop, against count times expectedBytes. A buffer with
  count 2, one whole four-byte entity and two bytes of a second one yields no entity
  at all, although the first entity lies inside the buffer.
\<close>

theorem readElementDataFromBuffer_prefix_counterexample:
  "\<not> (\<forall>rd expectedBytes data bytesLeftToRead.
        2 \<le> bytesLeftToRead \<and> bytesLeftToRead \<le> int (length data) \<and>
        1 \<le> readUInt16 data 0 \<and> 0 \<le> expectedBytes \<and> expectedBytes \<le> bytesLeftToRead - 2 \<longrightarrow>
        fst (snd (readElementDataFromBuffer rd expectedBytes data bytesLeftToRead)) \<noteq> [])"
proof
  assume a: "\<forall>rd expectedBytes data bytesLeftToRead.
        2 \<le> bytesLeftToRead \<and> bytesLeftToRead \<le> int (length data) \<and>
        1 \<le> readUInt16 data 0 \<and> 0 \<le> expectedBytes \<and> expectedBytes \<le> bytesLeftToRead - 2 \<longrightarrow>
        fst (snd (readElementDataFromBuffer rd expectedBytes data bytesLeftToRead)) \<noteq> []"
  let ?data = "[2, 0, 1, 0, 0, 0, 2, 0] :: byte list"
  have "(2::int) \<le> 8 \<and> 8 \<le> int (length ?data) \<and> 1 \<le> readUInt16 ?data 0 \<and>
      (0::int) \<le> 4 \<and> (4::int) \<le> 8 - 2"
    by (simp add: readUInt16_def)
  with a have "fst (snd (readElementDataFromBuffer sampleReadModel 4 ?data 8)) \<noteq> []"
    by blast
  moreover have "readElementDataFromBuffer sampleReadModel 4 ?data 8 = (2, [], [])"
    by (simp add: readElementDataFromBuffer_def readUInt16_def int32_def Let_def)
  ultimately show False by simp
qed

text \<open>
  Nor does the loop stop once it has started: when expectedBytes underestimates an
  entity (here 2 for the four-byte entities of the sample decoder), the second call is
  made with two bytes left, and what it gives back is stored like any other entity.
\<close>

lemma readElementDataFromBuffer_keeps_going:
  "readElementDataFromBuffer sampleReadModel 2 [2, 0, 1, 0, 0, 0, 2, 0] 8 =
     (6, [sampleItem 1 0 0 0 False, sampleItem 0 0 0 0 False], [(2, 6), (6, 2)])"
  by (simp add: readElementDataFromBuffer_def readUInt16_def readElementData_loop.simps
      sampleReadModel_def int32_def Let_def)

text \<open>
  The product in the guard is a 32-bit one: with count 2 and an expectedBytes of 2^30
  it is -2^31, the guard lets the eight-byte buffer through, and the loop runs.
\<close>

lemma readElementDataFromBuffer_product_wraps:
  "int32 (int (readUInt16 [2, 0, 1, 0, 0, 0, 2, 0] 0) * 1073741824) = - 2147483648 \<and>
   readElementDataFromBuffer sampleReadModel 1073741824 [2, 0, 1, 0, 0, 0, 2, 0] 8 =
     (6, [sampleItem 1 0 0 0 False, sampleItem 0 0 0 0 False], [(2, 6), (6, 2)])"
  by (simp add: readElementDataFromBuffer_def readUInt16_def readElementData_loop.simps
      sampleReadModel_def int32_def Let_def)

section \<open>Properties of the edit packet sender\<close>

subsection \<open>Header construction\<close>

lemma length_bytesOfUInt16: "length (bytesOfUInt16 w) = 2"
  by (simp add: bytesOfUInt16_def)

lemma length_bytesOfUInt64: "length (bytesOfUInt64 w) = 8"
  by (simp add: bytesOfUInt64_def)

lemma readUInt16_bytesOfUInt16: "readUInt16 (bytesOfUInt16 w @ rest) 0 = unat w"
proof -
  have "unat w < 65536" using unsigned_less [of w, where ?'a = nat] by simp
  then have "unat w mod 256 + 256 * (unat w div 256 mod 256) = unat w"
    by simp
  then show ?thesis
    by (simp add: readUInt16_def bytesOfUInt16_def unsigned_ucast_eq unat_drop_bit_eq drop_bit_eq_div take_bit_eq_mod unat_div_distrib)
qed

lemma bytesOfUInt64_inj: "bytesOfUInt64 v = bytesOfUInt64 w \<Longrightarrow> v = w"
proof (rule bit_word_eqI)
  fix n assume eq: "bytesOfUInt64 v = bytesOfUInt64 w" and n: "n < LENGTH(64)"
  then have "n div 8 < 8" by simp
  moreover from eq have "bytesOfUInt64 v ! (n div 8) = bytesOfUInt64 w ! (n div 8)" by simp
  ultimately have "(ucast (drop_bit (8 * (n div 8)) v) :: byte) = ucast (drop_bit (8 * (n div 8)) w)"
    by (simp add: bytesOfUInt64_def)
  then have "bit (ucast (drop_bit (8 * (n div 8)) v) :: byte) (n mod 8) =
             bit (ucast (drop_bit (8 * (n div 8)) w) :: byte) (n mod 8)" by simp
  then show "bit v n = bit w n"
    by (simp add: bit_ucast_iff bit_drop_bit_eq)
qed

lemma byte_split: "ucast (ucast (x :: 64 word) :: byte) + 256 * drop_bit 8 x = x"
proof -
  have "(ucast (ucast x :: byte) :: 64 word) = take_bit 8 x"
    by (simp add: unsigned_ucast_eq)
  moreover have "256 * drop_bit 8 x = push_bit 8 (drop_bit 8 x)"
    by (simp add: push_bit_eq_mult)
  ultimately show ?thesis
    using bits_ident [of 8 x] by (simp add: add.commute)
qed

lemma readUInt64_bytesOfUInt64: "readUInt64 (bytesOfUInt64 w @ rest) = w"
proof -
  have d: "drop_bit 64 w = 0"
    by (rule bit_word_eqI) (simp add: bit_drop_bit_eq bit_word_iff_drop_bit_and)
  have "readUInt64 (bytesOfUInt64 w @ rest) =
     ucast (ucast w :: byte) + 256 * (ucast (ucast (drop_bit 8 w) :: byte) + 256 *
     (ucast (ucast (drop_bit 16 w) :: byte) + 256 * (ucast (ucast (drop_bit 24 w) :: byte) + 256 *
     (ucast (ucast (drop_bit 32 w) :: byte) + 256 * (ucast (ucast (drop_bit 40 w) :: byte) + 256 *
     (ucast (ucast (drop_bit 48 w) :: byte) + 256 * (ucast (ucast (drop_bit 56 w) :: byte) +
      256 * drop_bit 64 w)))))))"
    by (simp add: readUInt64_def bytesOfUInt64_def upt_rec d)
  also have "\<dots> = w"
    using byte_split [of "drop_bit 56 w"] byte_split [of "drop_bit 48 w"]
      byte_split [of "drop_bit 40 w"] byte_split [of "drop_bit 32 w"]
      byte_split [of "drop_bit 24 w"] byte_split [of "drop_bit 16 w"]
      byte_split [of "drop_bit 8 w"] byte_split [of w]
    by (simp add: drop_bit_drop_bit)
  finally show ?thesis .
qed

lemma readUInt16_behind: "readUInt16 (front @ bytesOfUInt16 w @ rest) (length front) = unat w"
  using readUInt16_bytesOfUInt16 [of w rest]
  by (simp add: readUInt16_def nth_append bytesOfUInt16_def)

text \<open>
  Claim C9. A buffer that initializePacket has just initialised holds the packet
  header for the type, then the two bytes of the sequence number as it stood before
  the call, then the eight bytes of the clock reading taken in the call (no skew is
  applied to it), and nothing else: the first bytes are the header, the 16-bit read
  behind the header gives the sequence number, and the 64-bit read behind that gives
  the clock reading. The call advances the sequence number by one, modulo 2^16, so the
  next initialisation writes the successor.
\<close>

theorem initializePacket_header:
  "currentBuffer (fst (initializePacket env b type s)) =
     populatePacketHeader env type @ bytesOfUInt16 (sequenceNumber s) @
     bytesOfUInt64 (usecTimestampNow env (clockReads s)) \<and>
   length (bytesOfUInt16 (sequenceNumber s)) = 2 \<and>
   readUInt16 (bytesOfUInt16 (sequenceNumber s)) 0 = unat (sequenceNumber s) \<and>
   length (bytesOfUInt64 (usecTimestampNow env (clockReads s))) = 8 \<and>
   readUInt64 (bytesOfUInt64 (usecTimestampNow env (clockReads s))) =
     usecTimestampNow env (clockReads s) \<and>
   take (length (populatePacketHeader env type))
     (currentBuffer (fst (initializePacket env b type s))) = populatePacketHeader env type \<and>
   readUInt16 (currentBuffer (fst (initializePacket env b type s)))
     (length (populatePacketHeader env type)) = unat (sequenceNumber s) \<and>
   readUInt64 (drop (length (populatePacketHeader env type) + 2)
     (currentBuffer (fst (initializePacket env b type s)))) = usecTimestampNow env (clockReads s) \<and>
   length (currentBuffer (fst (initializePacket env b type s))) =
     length (populatePacketHeader env type) + 2 + 8 \<and>
   currentType (fst (initializePacket env b type s)) = type \<and>
   sequenceNumber (snd (initializePacket env b type s)) = sequenceNumber s + 1 \<and>
   unat (sequenceNumber (snd (initializePacket env b type s))) =
     (unat (sequenceNumber s) + 1) mod 65536 \<and>
   currentBuffer (fst (initializePacket env b' type' (snd (initializePacket env b type s)))) =
     populatePacketHeader env type' @ bytesOfUInt16 (sequenceNumber s + 1) @
     bytesOfUInt64 (usecTimestampNow env (clockReads s + 1))"
  using readUInt16_bytesOfUInt16 [of "sequenceNumber s" "[]"]
    readUInt64_bytesOfUInt64 [of "usecTimestampNow env (clockReads s)" "[]"]
    readUInt16_behind [of "populatePacketHeader env type" "sequenceNumber s"
      "bytesOfUInt64 (usecTimestampNow env (clockReads s))"]
  by (simp add: initializePacket_def Let_def length_bytesOfUInt16 length_bytesOfUInt64
      unat_word_ariths)

subsection \<open>Appending a record to a destination's buffer\<close>

lemma queuePacketToNode_loop_eq:
  "queuePacketToNode_loop env nodes k bytes s =
     s\<lparr>packetsQueued := packetsQueued s @
          map (\<lambda>n. (uuid n, bytes))
            (filter (\<lambda>n. nodeType n = myNodeType env \<and> (uuid n = k \<or> k = 0) \<and> hasActiveSocket n)
               nodes)\<rparr>"
  by (induction nodes arbitrary: s) simp_all

lemma queuePacketToNode_eq:
  "queuePacketToNode env k bytes s =
     s\<lparr>packetsQueued := packetsQueued s @
          map (\<lambda>n. (uuid n, bytes))
            (filter (\<lambda>n. nodeType n = myNodeType env \<and> (uuid n = k \<or> k = 0) \<and> hasActiveSocket n)
               (nodeHash env))\<rparr>"
  by (simp add: queuePacketToNode_def queuePacketToNode_loop_eq)

lemma filter_the_node:
  assumes "distinct (map uuid nodes)" "node \<in> set nodes" "uuid node \<noteq> 0"
    "hasActiveSocket node" "nodeType node = t"
  shows "filter (\<lambda>n. nodeType n = t \<and> (uuid n = uuid node \<or> uuid node = 0) \<and> hasActiveSocket n) nodes
         = [node]"
  using assms
proof (induction nodes)
  case Nil
  then show ?case by simp
next
  case (Cons n nodes)
  show ?case
  proof (cases "n = node")
    case True
    with Cons.prems(1) have "uuid node \<notin> uuid ` set nodes" by simp
    then have "\<forall>x \<in> set nodes. uuid x \<noteq> uuid node" by (metis imageI)
    then have "filter (\<lambda>n. nodeType n = t \<and> (uuid n = uuid node \<or> uuid node = 0) \<and>
        hasActiveSocket n) nodes = []"
      using Cons.prems(3) by (simp add: filter_empty_conv)
    with True Cons.prems show ?thesis by simp
  next
    case False
    with Cons.prems have in_rest: "node \<in> set nodes" by simp
    with Cons.prems have "uuid n \<noteq> uuid node" by auto
    with Cons.IH [OF _ in_rest] Cons.prems show ?thesis by simp
  qed
qed

lemma queuePacketToNode_one:
  assumes "distinct (map uuid (nodeHash env))" "node \<in> set (nodeHash env)" "uuid node \<noteq> 0"
    "hasActiveSocket node" "nodeType node = myNodeType env"
  shows "queuePacketToNode env (uuid node) bytes s =
           s\<lparr>packetsQueued := packetsQueued s @ [(uuid node, bytes)]\<rparr>"
  by (simp add: queuePacketToNode_eq filter_the_node [OF assms])

lemma mapFind_mapPut_same: "mapFind k (mapPut k v m) = Some v"
  by (induction m) auto

lemma mapFind_mapPut_other: "k' \<noteq> k \<Longrightarrow> mapFind k' (mapPut k v m) = mapFind k' m"
  by (induction m) auto

lemma pendingEditPacketFor_put:
  "pendingEditPacketFor env k (s\<lparr>pendingEditPackets := mapPut k v m\<rparr>) = v"
  by (simp add: pendingEditPacketFor_def mapFind_mapPut_same)

lemma initializePacket_eq:
  "initializePacket env pb type s =
     (pb\<lparr>currentBuffer := freshPacket env type s, currentType := type\<rparr>,
      s\<lparr>sequenceNumber := sequenceNumber s + 1, clockReads := clockReads s + 1\<rparr>)"
  by (simp add: initializePacket_def Let_def freshPacket_def)

lemma EditPacketBuffer_all_updated:
  "b\<lparr>nodeUUID := u, currentType := t, currentBuffer := x\<rparr> =
     \<lparr>nodeUUID = u, currentType = t, currentBuffer = x\<rparr>"
  by (cases b) simp

lemma appendToPacketBuffer_flushing:
  assumes "(type \<noteq> currentType b \<and> currentSize b > 0) \<or>
           currentSize b + int (length codeColorBuffer) \<ge> maxPacketSize s"
    and "b = pendingEditPacketFor env (uuid node) s"
    and "record' = (if clockSkewUsec node \<noteq> 0
                    then adjustEditPacketForClockSkew env codeColorBuffer (clockSkewUsec node)
                    else codeColorBuffer)"
    and "s1 = snd (releaseQueuedPacket env (b\<lparr>nodeUUID := uuid node\<rparr>) s)"
  shows "appendToPacketBuffer env type node codeColorBuffer s =
     (record',
      s1\<lparr>sequenceNumber := sequenceNumber s1 + 1, clockReads := clockReads s1 + 1,
         pendingEditPackets := mapPut (uuid node)
           \<lparr>nodeUUID = uuid node, currentType = type,
            currentBuffer = freshPacket env type s1 @ record'\<rparr> (pendingEditPackets s1)\<rparr>)"
  using assms
  by (simp add: appendToPacketBuffer_def initializePacket_eq releaseQueuedPacket_def Let_def
      split_beta currentSize_def EditPacketBuffer_all_updated)

lemma appendToPacketBuffer_initializing:
  assumes "\<not> ((type \<noteq> currentType b \<and> currentSize b > 0) \<or>
              currentSize b + int (length codeColorBuffer) \<ge> maxPacketSize s)"
    and "type \<noteq> currentType b"
    and "b = pendingEditPacketFor env (uuid node) s"
    and "record' = (if clockSkewUsec node \<noteq> 0
                    then adjustEditPacketForClockSkew env codeColorBuffer (clockSkewUsec node)
                    else codeColorBuffer)"
  shows "appendToPacketBuffer env type node codeColorBuffer s =
     (record',
      s\<lparr>sequenceNumber := sequenceNumber s + 1, clockReads := clockReads s + 1,
         pendingEditPackets := mapPut (uuid node)
           \<lparr>nodeUUID = uuid node, currentType = type,
            currentBuffer = freshPacket env type s @ record'\<rparr> (pendingEditPackets s)\<rparr>)"
  using assms
  by (simp add: appendToPacketBuffer_def initializePacket_eq Let_def split_beta currentSize_def EditPacketBuffer_all_updated)

lemma appendToPacketBuffer_appending:
  assumes "\<not> ((type \<noteq> currentType b \<and> currentSize b > 0) \<or>
              currentSize b + int (length codeColorBuffer) \<ge> maxPacketSize s)"
    and "type = currentType b"
    and "b = pendingEditPacketFor env (uuid node) s"
    and "record' = (if clockSkewUsec node \<noteq> 0
                    then adjustEditPacketForClockSkew env codeColorBuffer (clockSkewUsec node)
                    else codeColorBuffer)"
  shows "appendToPacketBuffer env type node codeColorBuffer s =
     (record',
      s\<lparr>pendingEditPackets := mapPut (uuid node)
           (b\<lparr>nodeUUID := uuid node, currentBuffer := currentBuffer b @ record'\<rparr>)
           (pendingEditPackets s)\<rparr>)"
  using assms
  by (simp add: appendToPacketBuffer_def Let_def split_beta currentSize_def EditPacketBuffer_all_updated)

text \<open>
  Claim C4. One append, for a destination that is in the node list (active, of the
  sender's node type, with a non-null UUID that no other node has), of a record which
  fits into a packet behind a fresh header (header + 2 + 8 + record length at most the
  maximum packet size) and whose length the clock-skew adjustment keeps, to a buffer
  that is within the maximum packet size. If the buffer is non-empty with another
  type, or its size plus the record length reaches the maximum packet size, the buffer
  is released once, before the record is appended: when its type is not
  PacketTypeUnknown, exactly one packet is handed over, which holds the buffer as it
  was before the append and is at most the maximum packet size long; when its type is
  PacketTypeUnknown, it is discarded and nothing is handed over; either way the buffer
  afterwards is a fresh header for the type followed by the (adjusted) record.
  Otherwise nothing is handed over, and the record is appended to the buffer as it
  was, or behind a fresh header when the buffer was empty and of another type. In all
  cases the buffer afterwards has the record's type and is again within the maximum
  packet size, so the bound holds for every later flush as well.
\<close>

theorem appendToPacketBuffer_flush:
  assumes nodes: "distinct (map uuid (nodeHash env))" "node \<in> set (nodeHash env)"
      "uuid node \<noteq> 0" "hasActiveSocket node" "nodeType node = myNodeType env"
    and b: "b = pendingEditPacketFor env (uuid node) s"
    and bound: "currentSize b \<le> maxPacketSize s"
    and fits: "int (length (populatePacketHeader env type)) + 2 + 8 + int (length codeColorBuffer)
                 \<le> maxPacketSize s"
    and adj: "length (adjustEditPacketForClockSkew env codeColorBuffer (clockSkewUsec node))
                 = length codeColorBuffer"
    and s': "s' = snd (appendToPacketBuffer env type node codeColorBuffer s)"
    and b': "b' = pendingEditPacketFor env (uuid node) s'"
    and r: "record' = (if clockSkewUsec node \<noteq> 0
                       then adjustEditPacketForClockSkew env codeColorBuffer (clockSkewUsec node)
                       else codeColorBuffer)"
  shows "((currentSize b > 0 \<and> type \<noteq> currentType b) \<or>
          currentSize b + int (length codeColorBuffer) \<ge> maxPacketSize s \<longrightarrow>
            (currentType b \<noteq> PacketTypeUnknown \<longrightarrow>
               packetsQueued s' = packetsQueued s @ [(uuid node, currentBuffer b)]) \<and>
            (currentType b = PacketTypeUnknown \<longrightarrow> packetsQueued s' = packetsQueued s) \<and>
            int (length (currentBuffer b)) \<le> maxPacketSize s \<and>
            currentBuffer b' =
              populatePacketHeader env type @ bytesOfUInt16 (sequenceNumber s) @
              bytesOfUInt64 (usecTimestampNow env (clockReads s)) @ record' \<and>
            sequenceNumber s' = sequenceNumber s + 1) \<and>
         (\<not> ((currentSize b > 0 \<and> type \<noteq> currentType b) \<or>
              currentSize b + int (length codeColorBuffer) \<ge> maxPacketSize s) \<longrightarrow>
            packetsQueued s' = packetsQueued s \<and>
            (type = currentType b \<longrightarrow>
               currentBuffer b' = currentBuffer b @ record' \<and>
               sequenceNumber s' = sequenceNumber s) \<and>
            (type \<noteq> currentType b \<longrightarrow>
               currentBuffer b = [] \<and>
               currentBuffer b' =
                 populatePacketHeader env type @ bytesOfUInt16 (sequenceNumber s) @
                 bytesOfUInt64 (usecTimestampNow env (clockReads s)) @ record')) \<and>
         fst (appendToPacketBuffer env type node codeColorBuffer s) = record' \<and>
         nodeUUID b' = uuid node \<and> currentType b' = type \<and>
         maxPacketSize s' = maxPacketSize s \<and> currentSize b' \<le> maxPacketSize s'"
proof -
  have len: "length record' = length codeColorBuffer" using adj r by simp
  let ?cond = "(currentSize b > 0 \<and> type \<noteq> currentType b) \<or>
          currentSize b + int (length codeColorBuffer) \<ge> maxPacketSize s"
  show ?thesis
  proof (cases ?cond)
    case True
    with fits have pos: "currentSize b > 0" by (auto simp: currentSize_def)
    define s1 where "s1 = snd (releaseQueuedPacket env (b\<lparr>nodeUUID := uuid node\<rparr>) s)"
    have s1: "s1 = (if currentType b \<noteq> PacketTypeUnknown
                    then s\<lparr>packetsQueued := packetsQueued s @ [(uuid node, currentBuffer b)]\<rparr>
                    else s)"
      using pos
      by (simp add: s1_def releaseQueuedPacket_def currentSize_def queuePacketToNode_one [OF nodes])
    from True have c: "(type \<noteq> currentType b \<and> currentSize b > 0) \<or>
           currentSize b + int (length codeColorBuffer) \<ge> maxPacketSize s" by blast
    note eq = appendToPacketBuffer_flushing [OF c b r s1_def]
    have q1: "currentType b \<noteq> PacketTypeUnknown \<longrightarrow>
        packetsQueued s' = packetsQueued s @ [(uuid node, currentBuffer b)]"
      by (simp add: s' eq s1)
    have q2: "currentType b = PacketTypeUnknown \<longrightarrow> packetsQueued s' = packetsQueued s"
      by (simp add: s' eq s1)
    have sz: "int (length (currentBuffer b)) \<le> maxPacketSize s"
      using bound by (simp add: currentSize_def)
    have bb: "b' = \<lparr>nodeUUID = uuid node, currentType = type,
            currentBuffer = freshPacket env type s1 @ record'\<rparr>"
      by (simp add: b' s' eq pendingEditPacketFor_def mapFind_mapPut_same)
    have fr: "freshPacket env type s1 = freshPacket env type s"
      by (simp add: s1 freshPacket_def)
    have mx: "maxPacketSize s' = maxPacketSize s"
      by (simp add: s' eq s1)
    have fs: "fst (appendToPacketBuffer env type node codeColorBuffer s) = record'"
      by (simp add: eq)
    have sq: "sequenceNumber s' = sequenceNumber s + 1"
      by (simp add: s' eq s1)
    from q1 q2 sz bb fr mx fs sq show ?thesis
      using True fits len
      by (simp add: freshPacket_def currentSize_def length_bytesOfUInt16 length_bytesOfUInt64)
  next
    case False
    then have nc: "\<not> ((type \<noteq> currentType b \<and> currentSize b > 0) \<or>
              currentSize b + int (length codeColorBuffer) \<ge> maxPacketSize s)" by blast
    show ?thesis
    proof (cases "type = currentType b")
      case same: True
      note eq = appendToPacketBuffer_appending [OF nc same b r]
      have "packetsQueued s' = packetsQueued s" by (simp add: s' eq)
      moreover have "b' = b\<lparr>nodeUUID := uuid node, currentBuffer := currentBuffer b @ record'\<rparr>"
        by (simp add: b' s' eq pendingEditPacketFor_def mapFind_mapPut_same)
      moreover have "maxPacketSize s' = maxPacketSize s" by (simp add: s' eq)
      moreover have "fst (appendToPacketBuffer env type node codeColorBuffer s) = record'"
        by (simp add: eq)
      moreover have "sequenceNumber s' = sequenceNumber s" by (simp add: s' eq)
      ultimately show ?thesis
        using False len same by (simp add: currentSize_def)
    next
      case differ: False
      with nc have empty: "currentBuffer b = []" by (auto simp: currentSize_def)
      note eq = appendToPacketBuffer_initializing [OF nc differ b r]
      have "packetsQueued s' = packetsQueued s" by (simp add: s' eq)
      moreover have "b' = \<lparr>nodeUUID = uuid node, currentType = type,
            currentBuffer = freshPacket env type s @ record'\<rparr>"
        by (simp add: b' s' eq pendingEditPacketFor_def mapFind_mapPut_same)
      moreover have "maxPacketSize s' = maxPacketSize s" by (simp add: s' eq)
      moreover have "fst (appendToPacketBuffer env type node codeColorBuffer s) = record'"
        by (simp add: eq)
      ultimately show ?thesis
        using False fits len differ empty
        by (simp add: freshPacket_def currentSize_def length_bytesOfUInt16 length_bytesOfUInt64)
    qed
  qed
qed

text \<open>
  The theorem at a buffer of 30 bytes, a record of 12 bytes of the same type and a
  maximum packet size of 40.
\<close>

theorem appendToPacketBuffer_flush_witness:
  "packetsQueued (snd (appendToPacketBuffer (sampleEnv [sampleNode 1 0] None) (PacketTypeKnown 1)
       (sampleNode 1 0) (replicate 12 9)
       ((sampleSender 10 40)\<lparr>pendingEditPackets :=
          [(1, \<lparr>nodeUUID = 1, currentType = PacketTypeKnown 1, currentBuffer = replicate 30 7\<rparr>)]\<rparr>)))
     = [(1, replicate 30 7)] \<and>
   int (length (replicate 30 (7::byte))) \<le> 40 \<and>
   currentBuffer (pendingEditPacketFor (sampleEnv [sampleNode 1 0] None) 1
     (snd (appendToPacketBuffer (sampleEnv [sampleNode 1 0] None) (PacketTypeKnown 1)
       (sampleNode 1 0) (replicate 12 9)
       ((sampleSender 10 40)\<lparr>pendingEditPackets :=
          [(1, \<lparr>nodeUUID = 1, currentType = PacketTypeKnown 1, currentBuffer = replicate 30 7\<rparr>)]\<rparr>))))
     = [1] @ bytesOfUInt16 0 @ bytesOfUInt64 1000 @ replicate 12 9"
proof -
  let ?env = "sampleEnv [sampleNode 1 0] None"
  let ?node = "sampleNode 1 0"
  let ?b = "\<lparr>nodeUUID = 1, currentType = PacketTypeKnown 1, currentBuffer = replicate 30 7\<rparr>"
  let ?s = "(sampleSender 10 40)\<lparr>pendingEditPackets := [(1, ?b)]\<rparr>"
  let ?rec = "replicate 12 9 :: byte list"
  have nodes: "distinct (map uuid (nodeHash ?env))" "?node \<in> set (nodeHash ?env)"
      "uuid ?node \<noteq> 0" "hasActiveSocket ?node" "nodeType ?node = myNodeType ?env"
    by (simp_all add: sampleEnv_def sampleNode_def)
  have b: "?b = pendingEditPacketFor ?env (uuid ?node) ?s"
    by (simp add: pendingEditPacketFor_def sampleNode_def)
  have bound: "currentSize ?b \<le> maxPacketSize ?s"
    by (simp add: currentSize_def sampleSender_def)
  have fits: "int (length (populatePacketHeader ?env (PacketTypeKnown 1))) + 2 + 8 +
      int (length ?rec) \<le> maxPacketSize ?s"
    by (simp add: sampleEnv_def sampleSender_def)
  have adj: "length (adjustEditPacketForClockSkew ?env ?rec (clockSkewUsec ?node)) = length ?rec"
    by (simp add: sampleEnv_def adjustTimestamp_def length_bytesOfUInt64)
  have cond: "(currentSize ?b > 0 \<and> PacketTypeKnown 1 \<noteq> currentType ?b) \<or>
          currentSize ?b + int (length ?rec) \<ge> maxPacketSize ?s"
    by (simp add: currentSize_def sampleSender_def)
  have kn: "currentType ?b \<noteq> PacketTypeUnknown" by simp
  from appendToPacketBuffer_flush [OF nodes b bound fits adj refl refl refl] cond kn
  have "packetsQueued (snd (appendToPacketBuffer ?env (PacketTypeKnown 1) ?node ?rec ?s))
          = packetsQueued ?s @ [(uuid ?node, currentBuffer ?b)] \<and>
        int (length (currentBuffer ?b)) \<le> maxPacketSize ?s \<and>
        currentBuffer (pendingEditPacketFor ?env (uuid ?node)
            (snd (appendToPacketBuffer ?env (PacketTypeKnown 1) ?node ?rec ?s))) =
          populatePacketHeader ?env (PacketTypeKnown 1) @ bytesOfUInt16 (sequenceNumber ?s) @
          bytesOfUInt64 (usecTimestampNow ?env (clockReads ?s)) @
          (if clockSkewUsec ?node \<noteq> 0
           then adjustEditPacketForClockSkew ?env ?rec (clockSkewUsec ?node) else ?rec)"
    by blast
  then show ?thesis
    by (simp add: sampleEnv_def sampleNode_def sampleSender_def)
qed

text \<open>
  Without the condition that a record fits behind a fresh header the bound on flushed
  packets fails. With a maximum packet size of 20 and an 11-byte header, a first
  record of 15 bytes goes into the empty buffer (the test 0 + 15 >= 20 does not count
  the header the buffer is about to get), which then holds 26 bytes; the second
  record flushes these 26 bytes.
\<close>

theorem flushed_packet_size_counterexample:
  "\<not> (\<forall>p \<in> set (packetsQueued
          (queueOctreeEditMessage (sampleEnv [sampleNode 1 0] None) (PacketTypeKnown 1) (replicate 15 0)
            (queueOctreeEditMessage (sampleEnv [sampleNode 1 0] None) (PacketTypeKnown 1)
               (replicate 15 0) (sampleSender 10 20)))).
        int (length (snd p)) \<le> maxPacketSize (sampleSender 10 20))"
proof -
  let ?env = "sampleEnv [sampleNode 1 0] None"
  have ex: "serversExist ?env"
    by (simp add: serversExist_def sampleEnv_def sampleNode_def)
  have one: "queueOctreeEditMessage ?env (PacketTypeKnown 1) (replicate 15 0) (sampleSender 10 20) =
      (sampleSender 10 20)\<lparr>sequenceNumber := 1, clockReads := 1, pendingEditPackets :=
         [(1, \<lparr>nodeUUID = 1, currentType = PacketTypeKnown 1,
               currentBuffer = [1] @ bytesOfUInt16 0 @ bytesOfUInt64 1000 @ replicate 15 0\<rparr>)]\<rparr>"
    using ex
    by (simp add: queueOctreeEditMessage_def appendToPacketBuffer_def pendingEditPacketFor_def
        initializePacket_def currentSize_def Let_def sampleEnv_def sampleNode_def sampleSender_def)
  have two: "packetsQueued (queueOctreeEditMessage ?env (PacketTypeKnown 1) (replicate 15 0)
      ((sampleSender 10 20)\<lparr>sequenceNumber := 1, clockReads := 1, pendingEditPackets :=
         [(1, \<lparr>nodeUUID = 1, currentType = PacketTypeKnown 1,
               currentBuffer = [1] @ bytesOfUInt16 0 @ bytesOfUInt64 1000 @ replicate 15 0\<rparr>)]\<rparr>))
     = [(1, [1] @ bytesOfUInt16 0 @ bytesOfUInt64 1000 @ replicate 15 0)]"
    using ex
    by (simp add: queueOctreeEditMessage_def appendToPacketBuffer_def pendingEditPacketFor_def
        initializePacket_def releaseQueuedPacket_def queuePacketToNode_def currentSize_def Let_def
        sampleEnv_def sampleNode_def sampleSender_def length_bytesOfUInt16 length_bytesOfUInt64)
  show ?thesis
    unfolding one two
    by (simp add: length_bytesOfUInt16 length_bytesOfUInt64 sampleSender_def)
qed

text \<open>
  A buffer can be non-empty with the type PacketTypeUnknown: a record submitted with
  that type goes into an empty buffer without a header. The next record of another
  type releases the buffer, and releaseQueuedPacket hands nothing over for a buffer of
  unknown type.
\<close>

lemma unknown_type_buffer_is_discarded:
  "queueOctreeEditMessage (sampleEnv [sampleNode 1 0] None) PacketTypeUnknown [9]
     (sampleSender 10 1500) =
     (sampleSender 10 1500)\<lparr>pendingEditPackets :=
        [(1, \<lparr>nodeUUID = 1, currentType = PacketTypeUnknown, currentBuffer = [9]\<rparr>)]\<rparr> \<and>
   queueOctreeEditMessage (sampleEnv [sampleNode 1 0] None) (PacketTypeKnown 1) [7]
     ((sampleSender 10 1500)\<lparr>pendingEditPackets :=
        [(1, \<lparr>nodeUUID = 1, currentType = PacketTypeUnknown, currentBuffer = [9]\<rparr>)]\<rparr>) =
     (sampleSender 10 1500)\<lparr>sequenceNumber := 1, clockReads := 1, pendingEditPackets :=
        [(1, \<lparr>nodeUUID = 1, currentType = PacketTypeKnown 1,
              currentBuffer = [1] @ bytesOfUInt16 0 @ bytesOfUInt64 1000 @ [7]\<rparr>)]\<rparr>"
proof -
  have ex: "serversExist (sampleEnv [sampleNode 1 0] None)"
    by (simp add: serversExist_def sampleEnv_def sampleNode_def)
  show ?thesis
    using ex
    by (simp add: queueOctreeEditMessage_def appendToPacketBuffer_def pendingEditPacketFor_def
        initializePacket_def releaseQueuedPacket_def currentSize_def Let_def
        sampleEnv_def sampleNode_def sampleSender_def)
qed

subsection \<open>Clock-skew correction\<close>

lemma appendToPacketBuffer_appends:
  assumes r: "record' = (if clockSkewUsec node \<noteq> 0
                       then adjustEditPacketForClockSkew env codeColorBuffer (clockSkewUsec node)
                       else codeColorBuffer)"
  shows "fst (appendToPacketBuffer env type node codeColorBuffer s) = record' \<and>
         (\<exists>front. currentBuffer (pendingEditPacketFor env (uuid node)
                      (snd (appendToPacketBuffer env type node codeColorBuffer s))) =
                   front @ record')"
proof -
  define b where "b = pendingEditPacketFor env (uuid node) s"
  let ?flush = "(type \<noteq> currentType b \<and> currentSize b > 0) \<or>
           currentSize b + int (length codeColorBuffer) \<ge> maxPacketSize s"
  show ?thesis
  proof (cases ?flush)
    case True
    from appendToPacketBuffer_flushing [OF True b_def r refl] show ?thesis
      by (simp add: pendingEditPacketFor_put)
  next
    case False
    show ?thesis
    proof (cases "type = currentType b")
      case True
      from appendToPacketBuffer_appending [OF False True b_def r] show ?thesis
        by (simp add: pendingEditPacketFor_put)
    next
      case differ: False
      from appendToPacketBuffer_initializing [OF False differ b_def r] show ?thesis
        by (simp add: pendingEditPacketFor_put)
    qed
  qed
qed

text \<open>
  For any adjustEditPacketForClockSkew: with two destinations that both take the
  record and both have a non-zero skew, what is appended for the second one is the
  record adjusted for the first and then for the second.
\<close>

lemma clock_skew_accumulates:
  assumes nodes: "nodeHash env = [n1, n2]"
    and n1: "hasActiveSocket n1" "nodeType n1 = myNodeType env" "clockSkewUsec n1 \<noteq> 0"
    and n2: "hasActiveSocket n2" "nodeType n2 = myNodeType env" "clockSkewUsec n2 \<noteq> 0"
    and js: "serverJurisdictions env = Some jurisdictions"
      "jurisdictions (uuid n1) = Some j1" "j1 codeColorBuffer"
      "jurisdictions (uuid n2) = Some j2"
      "j2 (adjustEditPacketForClockSkew env codeColorBuffer (clockSkewUsec n1))"
    and send: "shouldSend s"
  shows "\<exists>front. currentBuffer (pendingEditPacketFor env (uuid n2)
                    (queueOctreeEditMessage env type codeColorBuffer s)) =
           front @ adjustEditPacketForClockSkew env
                     (adjustEditPacketForClockSkew env codeColorBuffer (clockSkewUsec n1))
                     (clockSkewUsec n2)"
proof -
  have ex: "serversExist env"
    using nodes n1 n2 js by (simp add: serversExist_def)
  let ?once = "adjustEditPacketForClockSkew env codeColorBuffer (clockSkewUsec n1)"
  let ?s1 = "snd (appendToPacketBuffer env type n1 codeColorBuffer s)"
  from appendToPacketBuffer_appends [of ?once n1 env codeColorBuffer type s] n1
  have first: "fst (appendToPacketBuffer env type n1 codeColorBuffer s) = ?once" by simp
  have run: "queueOctreeEditMessage env type codeColorBuffer s =
      snd (appendToPacketBuffer env type n2 ?once ?s1)"
    using ex send nodes n1 n2 js first
    by (simp add: queueOctreeEditMessage_def split_beta)
  from appendToPacketBuffer_appends [of "adjustEditPacketForClockSkew env ?once (clockSkewUsec n2)"
      n2 env ?once type ?s1] n2
  show ?thesis unfolding run by simp
qed

text \<open>
  Claim C5. One record with embedded timestamp 1000 is dispatched to two destinations
  whose jurisdictions contain it, with clock skews 5 and 7. The adjustment is made in
  the caller's buffer, which the loop carries on to the next node: the bytes appended
  for the first destination carry 1005, those appended for the second carry 1012, the
  timestamp corrected by both skews, where the correction by the second destination's
  skew alone would give 1007.
\<close>

theorem clock_skew_accumulates_across_destinations:
  "pendingEditPackets
     (queueOctreeEditMessage
        (sampleEnv [sampleNode 1 5, sampleNode 2 7] (Some (\<lambda>k. Some (\<lambda>octCode. True))))
        (PacketTypeKnown 1) [232, 3, 0, 0, 0, 0, 0, 0, 42] (sampleSender 10 1500))
   = [(1, \<lparr>nodeUUID = 1, currentType = PacketTypeKnown 1,
           currentBuffer = [1] @ bytesOfUInt16 0 @ bytesOfUInt64 1000 @
                           [237, 3, 0, 0, 0, 0, 0, 0, 42]\<rparr>),
      (2, \<lparr>nodeUUID = 2, currentType = PacketTypeKnown 1,
           currentBuffer = [1] @ bytesOfUInt16 1 @ bytesOfUInt64 1001 @
                           [244, 3, 0, 0, 0, 0, 0, 0, 42]\<rparr>)] \<and>
   readUInt64 [232, 3, 0, 0, 0, 0, 0, 0, 42] = 1000 \<and>
   readUInt64 [237, 3, 0, 0, 0, 0, 0, 0, 42] = 1000 + 5 \<and>
   readUInt64 [244, 3, 0, 0, 0, 0, 0, 0, 42] = 1000 + 5 + 7 \<and>
   adjustTimestamp [232, 3, 0, 0, 0, 0, 0, 0, 42] 7 = [239, 3, 0, 0, 0, 0, 0, 0, 42] \<and>
   readUInt64 [239, 3, 0, 0, 0, 0, 0, 0, 42] = 1000 + 7"
proof -
  let ?env = "sampleEnv [sampleNode 1 5, sampleNode 2 7] (Some (\<lambda>k. Some (\<lambda>octCode. True)))"
  have ex: "serversExist ?env"
    by (simp add: serversExist_def sampleEnv_def sampleNode_def)
  have a1: "adjustTimestamp [232, 3, 0, 0, 0, 0, 0, 0, 42] 5 = [237, 3, 0, 0, 0, 0, 0, 0, 42]"
    by (simp add: adjustTimestamp_def readUInt64_def bytesOfUInt64_def upt_rec)
  have a2: "adjustTimestamp [237, 3, 0, 0, 0, 0, 0, 0, 42] 7 = [244, 3, 0, 0, 0, 0, 0, 0, 42]"
    by (simp add: adjustTimestamp_def readUInt64_def bytesOfUInt64_def upt_rec)
  have a3: "adjustTimestamp [232, 3, 0, 0, 0, 0, 0, 0, 42] 7 = [239, 3, 0, 0, 0, 0, 0, 0, 42]"
    by (simp add: adjustTimestamp_def readUInt64_def bytesOfUInt64_def upt_rec)
  have run: "pendingEditPackets
     (queueOctreeEditMessage ?env (PacketTypeKnown 1) [232, 3, 0, 0, 0, 0, 0, 0, 42]
        (sampleSender 10 1500))
   = [(1, \<lparr>nodeUUID = 1, currentType = PacketTypeKnown 1,
           currentBuffer = [1] @ bytesOfUInt16 0 @ bytesOfUInt64 1000 @
                           adjustTimestamp [232, 3, 0, 0, 0, 0, 0, 0, 42] 5\<rparr>),
      (2, \<lparr>nodeUUID = 2, currentType = PacketTypeKnown 1,
           currentBuffer = [1] @ bytesOfUInt16 1 @ bytesOfUInt64 1001 @
              adjustTimestamp (adjustTimestamp [232, 3, 0, 0, 0, 0, 0, 0, 42] 5) 7\<rparr>)]"
    using ex
    by (simp add: queueOctreeEditMessage_def appendToPacketBuffer_def pendingEditPacketFor_def
        initializePacket_def currentSize_def Let_def sampleEnv_def sampleNode_def sampleSender_def
        a1 a2)
  have r: "readUInt64 [232, 3, 0, 0, 0, 0, 0, 0, 42] = 1000"
    "readUInt64 [237, 3, 0, 0, 0, 0, 0, 0, 42] = 1000 + 5"
    "readUInt64 [244, 3, 0, 0, 0, 0, 0, 0, 42] = 1000 + 5 + 7"
    "readUInt64 [239, 3, 0, 0, 0, 0, 0, 0, 42] = 1000 + 7"
    by (simp_all add: readUInt64_def)
  show ?thesis
    unfolding run a1 a2 a3 using r by simp
qed

subsection \<open>Release and the drain of the pending lists\<close>

lemma releaseQueuedPacket_eq:
  "releaseQueuedPacket env b s =
     (emptied b, s\<lparr>packetsQueued := packetsQueued s @ releasedPackets env b\<rparr>)"
  by (simp add: releaseQueuedPacket_def releasedPackets_def emptied_def queuePacketToNode_eq Let_def)

lemma releaseQueuedMessages_loop_eq:
  "releaseQueuedMessages_loop env visited buffers s =
     (visited @ map (\<lambda>(k, b). (k, emptied b)) buffers,
      s\<lparr>packetsQueued := packetsQueued s @ concat (map (\<lambda>(k, b). releasedPackets env b) buffers)\<rparr>)"
  by (induction buffers arbitrary: visited s) (auto simp: releaseQueuedPacket_eq)

lemma releaseQueuedMessages_active:
  "serversExist env \<Longrightarrow>
   releaseQueuedMessages env s =
     s\<lparr>packetsQueued := packetsQueued s @
          concat (map (\<lambda>(k, b). releasedPackets env b) (pendingEditPackets s)),
       pendingEditPackets := map (\<lambda>(k, b). (k, emptied b)) (pendingEditPackets s)\<rparr>"
  by (simp add: releaseQueuedMessages_def releaseQueuedMessages_loop_eq)

text \<open>What the calls made while draining leave untouched.\<close>

lemma queuePacketToNodes_loop_total:
  "serverJurisdictions env = Some j \<Longrightarrow>
   \<exists>q. queuePacketToNodes_loop env nodes buffer octCode s = Inr (s\<lparr>packetsQueued := q\<rparr>)"
proof (induction nodes arbitrary: s)
  case Nil
  have "s = s\<lparr>packetsQueued := packetsQueued s\<rparr>" by simp
  then show ?case by (metis queuePacketToNodes_loop.simps(1))
next
  case (Cons n nodes)
  show ?case
  proof (cases "hasActiveSocket n \<and> nodeType n = myNodeType env")
    case False
    with Cons show ?thesis by auto
  next
    case True
    let ?s = "if (case j (uuid n) of Some x \<Rightarrow> x | None \<Rightarrow> defaultJurisdictionMap env) octCode
              then queuePacketToNode env (uuid n) buffer s else s"
    from Cons.IH [OF Cons.prems, of ?s] obtain q where
      "queuePacketToNodes_loop env nodes buffer octCode ?s = Inr (?s\<lparr>packetsQueued := q\<rparr>)" by blast
    moreover have "?s\<lparr>packetsQueued := q\<rparr> = s\<lparr>packetsQueued := q\<rparr>"
      by (simp add: queuePacketToNode_eq)
    ultimately show ?thesis using True Cons.prems by (auto simp: Let_def)
  qed
qed

lemma queuePacketToNodes_total:
  assumes "serversExist env" "serverJurisdictions env = Some j"
  shows "\<exists>q. queuePacketToNodes env buffer s = Inr (s\<lparr>packetsQueued := q\<rparr>)"
proof (cases "shouldSend s")
  case False
  have "s = s\<lparr>packetsQueued := packetsQueued s\<rparr>" by simp
  with False show ?thesis unfolding queuePacketToNodes_def by (metis (full_types))
next
  case True
  with assms show ?thesis
    using queuePacketToNodes_loop_total [OF assms(2)]
    by (simp add: queuePacketToNodes_def Let_def)
qed

lemma sendSingleMessagePackets_total:
  assumes "serversExist env" "serverJurisdictions env = Some j"
  shows "\<exists>q. sendSingleMessagePackets env packets s =
           Inr (s\<lparr>packetsQueued := q,
                  preServerSingleMessagePackets :=
                    (if packets = [] then preServerSingleMessagePackets s else [])\<rparr>)"
proof (induction packets arbitrary: s)
  case Nil
  have "s = s\<lparr>packetsQueued := packetsQueued s,
      preServerSingleMessagePackets := preServerSingleMessagePackets s\<rparr>" by simp
  then show ?case by (metis sendSingleMessagePackets.simps(1))
next
  case (Cons p packets)
  from queuePacketToNodes_total [OF assms, of "currentBuffer p" s] obtain q where
    q: "queuePacketToNodes env (currentBuffer p) s = Inr (s\<lparr>packetsQueued := q\<rparr>)" by blast
  let ?s = "s\<lparr>packetsQueued := q, preServerSingleMessagePackets := packets\<rparr>"
  from Cons.IH [of ?s] obtain q' where
    "sendSingleMessagePackets env packets ?s =
       Inr (?s\<lparr>packetsQueued := q', preServerSingleMessagePackets :=
              (if packets = [] then preServerSingleMessagePackets ?s else [])\<rparr>)" by blast
  then have "sendSingleMessagePackets env (p # packets) s =
      Inr (s\<lparr>packetsQueued := q', preServerSingleMessagePackets := []\<rparr>)"
    using q by (cases "packets = []") simp_all
  then show ?case by auto
qed


lemma batchingOnly_refl: "batchingOnly s s"
  by (simp add: batchingOnly_def)

lemma batchingOnly_trans: "batchingOnly s s' \<Longrightarrow> batchingOnly s' s'' \<Longrightarrow> batchingOnly s s''"
  by (simp add: batchingOnly_def)

lemma appendToPacketBuffer_batchingOnly:
  "batchingOnly s (snd (appendToPacketBuffer env type node buffer s))"
  by (simp add: batchingOnly_def appendToPacketBuffer_def releaseQueuedPacket_eq
      initializePacket_eq Let_def split_beta)

lemma queueOctreeEditMessage_loop_batchingOnly:
  "batchingOnly s (queueOctreeEditMessage_loop env type nodes buffer s)"
proof (induction nodes arbitrary: buffer s)
  case Nil
  show ?case by (simp add: batchingOnly_refl)
next
  case (Cons n nodes)
  have step: "batchingOnly s (snd (appendToPacketBuffer env type n buffer s))"
    by (rule appendToPacketBuffer_batchingOnly)
  have "batchingOnly s (queueOctreeEditMessage_loop env type nodes
      (fst (appendToPacketBuffer env type n buffer s))
      (snd (appendToPacketBuffer env type n buffer s)))"
    by (rule batchingOnly_trans [OF step Cons.IH])
  with Cons.IH show ?case
    by (simp add: Let_def split_beta)
qed

lemma queueOctreeEditMessage_active_batchingOnly:
  "serversExist env \<Longrightarrow> batchingOnly s (queueOctreeEditMessage env type buffer s)"
  by (simp add: queueOctreeEditMessage_def queueOctreeEditMessage_loop_batchingOnly batchingOnly_refl)

lemma replayPackets_batchingOnly:
  "serversExist env \<Longrightarrow>
   batchingOnly (s\<lparr>preServerPackets := []\<rparr>) (replayPackets env packets s) \<or>
   (packets = [] \<and> replayPackets env packets s = s)"
proof (induction packets arbitrary: s)
  case Nil
  show ?case by simp
next
  case (Cons p packets)
  let ?s = "(queueOctreeEditMessage env (currentType p) (currentBuffer p) s)\<lparr>preServerPackets := packets\<rparr>"
  from queueOctreeEditMessage_active_batchingOnly [OF Cons.prems,
      where s = s and type = "currentType p" and buffer = "currentBuffer p"]
  have a: "batchingOnly (s\<lparr>preServerPackets := []\<rparr>) (?s\<lparr>preServerPackets := []\<rparr>)"
    by (simp add: batchingOnly_def)
  from Cons.IH [OF Cons.prems, where s = ?s]
  have "batchingOnly (s\<lparr>preServerPackets := []\<rparr>) (replayPackets env packets ?s)"
  proof
    assume "batchingOnly (?s\<lparr>preServerPackets := []\<rparr>) (replayPackets env packets ?s)"
    with a show ?thesis by (rule batchingOnly_trans)
  next
    assume "packets = [] \<and> replayPackets env packets ?s = ?s"
    with a show ?thesis by simp
  qed
  then show ?case by simp
qed

lemma replayPackets_pending_batchingOnly:
  assumes "serversExist env"
  shows "batchingOnly (s\<lparr>preServerPackets := []\<rparr>) (replayPackets env (preServerPackets s) s)"
proof -
  from replayPackets_batchingOnly [OF assms, of s "preServerPackets s"] show ?thesis
  proof
    assume "preServerPackets s = [] \<and> replayPackets env (preServerPackets s) s = s"
    then show ?thesis by (simp add: batchingOnly_def)
  qed
qed

lemma queuePacketToNodes_loop_latch:
  "queuePacketToNodes_loop env nodes buffer octCode s = Inr s' \<Longrightarrow>
   releaseQueuedMessagesPending s' = releaseQueuedMessagesPending s"
proof (induction nodes arbitrary: s)
  case Nil
  then show ?case by simp
next
  case (Cons n nodes)
  then show ?case
    by (auto simp: Let_def queuePacketToNode_eq split: if_splits option.splits)
qed

lemma queuePacketToNodes_latch:
  "queuePacketToNodes env buffer s = Inr s' \<Longrightarrow>
   releaseQueuedMessagesPending s' = releaseQueuedMessagesPending s"
  by (auto simp: queuePacketToNodes_def Let_def split: if_splits
      dest: queuePacketToNodes_loop_latch)

lemma sendSingleMessagePackets_latch:
  "sendSingleMessagePackets env packets s = Inr s' \<Longrightarrow>
   releaseQueuedMessagesPending s' = releaseQueuedMessagesPending s"
proof (induction packets arbitrary: s)
  case Nil
  then show ?case by simp
next
  case (Cons p packets)
  from Cons.prems obtain s1 where s1: "queuePacketToNodes env (currentBuffer p) s = Inr s1"
    and rest: "sendSingleMessagePackets env packets (s1\<lparr>preServerSingleMessagePackets := packets\<rparr>) = Inr s'"
    by (auto split: sum.splits)
  from Cons.IH [OF rest] queuePacketToNodes_latch [OF s1] show ?case by simp
qed

lemma queueOctreeEditMessage_latch:
  "releaseQueuedMessagesPending (queueOctreeEditMessage env type buffer s) =
     releaseQueuedMessagesPending s"
proof (cases "serversExist env")
  case True
  from queueOctreeEditMessage_active_batchingOnly [OF True, where s = s]
  show ?thesis by (simp add: batchingOnly_def)
next
  case False
  then show ?thesis by (simp add: queueOctreeEditMessage_def Let_def)
qed

lemma queuePendingPacketToNodes_latch:
  "releaseQueuedMessagesPending (queuePendingPacketToNodes type buffer s) =
     releaseQueuedMessagesPending s"
  by (simp add: queuePendingPacketToNodes_def Let_def)

text \<open>
  What the code does with the latch. While no servers exist, releaseQueuedMessages
  only sets the latch. When servers exist and a pending list is non-empty, process runs
  processPreServerExistsPackets. When servers exist (and the jurisdiction map is set)
  and the latch is set, processPreServerExistsPackets returns, and what it returns is
  the state after the two pending lists have been drained, both of them empty, with
  the latch cleared, every buffer emptied and the contents of every buffer that was
  non-empty and typed handed over. process never clears a set latch in any other way:
  after it the latch is still set or every buffer has been emptied. Submitting edits
  leaves the latch as it is.
\<close>

lemma release_latch_and_drain:
  "(\<not> serversExist env0 \<longrightarrow>
      releaseQueuedMessages env0 s0 = s0\<lparr>releaseQueuedMessagesPending := True\<rparr>) \<and>
   (serversExist env \<and> (preServerPackets s \<noteq> [] \<or> preServerSingleMessagePackets s \<noteq> []) \<longrightarrow>
      process env s = processPreServerExistsPackets env s) \<and>
   (serversExist env \<and> serverJurisdictions env \<noteq> None \<and> releaseQueuedMessagesPending s \<longrightarrow>
      (\<exists>s1 drained.
         sendSingleMessagePackets env (preServerSingleMessagePackets s) s = Inr s1 \<and>
         drained = replayPackets env (preServerPackets s1) s1 \<and>
         preServerSingleMessagePackets drained = [] \<and> preServerPackets drained = [] \<and>
         processPreServerExistsPackets env s =
           Inr (drained\<lparr>releaseQueuedMessagesPending := False,
                  packetsQueued := packetsQueued drained @
                    concat (map (\<lambda>(k, b). releasedPackets env b) (pendingEditPackets drained)),
                  pendingEditPackets :=
                    map (\<lambda>(k, b). (k, emptied b)) (pendingEditPackets drained)\<rparr>))) \<and>
   (releaseQueuedMessagesPending s \<and> process env s = Inr s' \<longrightarrow>
      releaseQueuedMessagesPending s' \<or>
      (\<forall>(k, b) \<in> set (pendingEditPackets s'). currentBuffer b = [] \<and>
          currentType b = PacketTypeUnknown)) \<and>
   releaseQueuedMessagesPending (queueOctreeEditMessage env type buffer s) =
     releaseQueuedMessagesPending s \<and>
   releaseQueuedMessagesPending (queuePendingPacketToNodes type buffer s) =
     releaseQueuedMessagesPending s"
proof (intro conjI impI)
  assume "\<not> serversExist env0"
  then show "releaseQueuedMessages env0 s0 = s0\<lparr>releaseQueuedMessagesPending := True\<rparr>"
    by (simp add: releaseQueuedMessages_def)
next
  assume "serversExist env \<and> (preServerPackets s \<noteq> [] \<or> preServerSingleMessagePackets s \<noteq> [])"
  then show "process env s = processPreServerExistsPackets env s"
    by (simp add: process_def)
next
  assume a: "serversExist env \<and> serverJurisdictions env \<noteq> None \<and> releaseQueuedMessagesPending s"
  then obtain j where j: "serverJurisdictions env = Some j" by auto
  from a have ex: "serversExist env" and latch: "releaseQueuedMessagesPending s" by simp_all
  from sendSingleMessagePackets_total [OF ex j, of "preServerSingleMessagePackets s" s]
  obtain q where s1: "sendSingleMessagePackets env (preServerSingleMessagePackets s) s =
      Inr (s\<lparr>packetsQueued := q, preServerSingleMessagePackets :=
             (if preServerSingleMessagePackets s = [] then preServerSingleMessagePackets s else [])\<rparr>)"
    by blast
  define s1 where "s1 = s\<lparr>packetsQueued := q, preServerSingleMessagePackets :=
             (if preServerSingleMessagePackets s = [] then preServerSingleMessagePackets s else [])\<rparr>"
  define drained where "drained = replayPackets env (preServerPackets s1) s1"
  have singles1: "preServerSingleMessagePackets s1 = []" and latch1: "releaseQueuedMessagesPending s1"
    using latch by (simp_all add: s1_def)
  from replayPackets_pending_batchingOnly [OF ex, of s1]
  have fr: "batchingOnly (s1\<lparr>preServerPackets := []\<rparr>) drained" by (simp add: drained_def)
  then have d: "preServerSingleMessagePackets drained = []" "preServerPackets drained = []"
      "releaseQueuedMessagesPending drained"
    using singles1 latch1 by (simp_all add: batchingOnly_def)
  have "processPreServerExistsPackets env s =
      Inr ((releaseQueuedMessages env drained)\<lparr>releaseQueuedMessagesPending := False\<rparr>)"
    using ex s1 d(3) by (simp add: processPreServerExistsPackets_def s1_def [symmetric]
        drained_def [symmetric] Let_def)
  then have "processPreServerExistsPackets env s =
           Inr (drained\<lparr>releaseQueuedMessagesPending := False,
                  packetsQueued := packetsQueued drained @
                    concat (map (\<lambda>(k, b). releasedPackets env b) (pendingEditPackets drained)),
                  pendingEditPackets :=
                    map (\<lambda>(k, b). (k, emptied b)) (pendingEditPackets drained)\<rparr>)"
    by (simp add: releaseQueuedMessages_active [OF ex])
  with s1 d(1,2) have "sendSingleMessagePackets env (preServerSingleMessagePackets s) s = Inr s1 \<and>
         drained = replayPackets env (preServerPackets s1) s1 \<and>
         preServerSingleMessagePackets drained = [] \<and> preServerPackets drained = [] \<and>
         processPreServerExistsPackets env s =
           Inr (drained\<lparr>releaseQueuedMessagesPending := False,
                  packetsQueued := packetsQueued drained @
                    concat (map (\<lambda>(k, b). releasedPackets env b) (pendingEditPackets drained)),
                  pendingEditPackets :=
                    map (\<lambda>(k, b). (k, emptied b)) (pendingEditPackets drained)\<rparr>)"
    by (simp only: s1_def [symmetric] drained_def [symmetric] simp_thms)
  then show "\<exists>s1 drained.
         sendSingleMessagePackets env (preServerSingleMessagePackets s) s = Inr s1 \<and>
         drained = replayPackets env (preServerPackets s1) s1 \<and>
         preServerSingleMessagePackets drained = [] \<and> preServerPackets drained = [] \<and>
         processPreServerExistsPackets env s =
           Inr (drained\<lparr>releaseQueuedMessagesPending := False,
                  packetsQueued := packetsQueued drained @
                    concat (map (\<lambda>(k, b). releasedPackets env b) (pendingEditPackets drained)),
                  pendingEditPackets :=
                    map (\<lambda>(k, b). (k, emptied b)) (pendingEditPackets drained)\<rparr>)"
    by (intro exI)
next
  assume a: "releaseQueuedMessagesPending s \<and> process env s = Inr s'"
  show "releaseQueuedMessagesPending s' \<or>
      (\<forall>(k, b) \<in> set (pendingEditPackets s'). currentBuffer b = [] \<and>
          currentType b = PacketTypeUnknown)"
  proof (cases "serversExist env \<and>
      (preServerPackets s \<noteq> [] \<or> preServerSingleMessagePackets s \<noteq> [])")
    case False
    with a have "s' = s" by (auto simp: process_def)
    with a show ?thesis by simp
  next
    case True
    then have ex: "serversExist env" by simp
    from True a have p: "processPreServerExistsPackets env s = Inr s'"
      by (simp add: process_def)
    then obtain s1 where s1: "sendSingleMessagePackets env (preServerSingleMessagePackets s) s = Inr s1"
      using ex by (auto simp: processPreServerExistsPackets_def split: sum.splits)
    define drained where "drained = replayPackets env (preServerPackets s1) s1"
    from sendSingleMessagePackets_latch [OF s1] a have "releaseQueuedMessagesPending s1" by simp
    moreover from replayPackets_pending_batchingOnly [OF ex, of s1]
    have "batchingOnly (s1\<lparr>preServerPackets := []\<rparr>) drained" by (simp add: drained_def)
    ultimately have "releaseQueuedMessagesPending drained" by (simp add: batchingOnly_def)
    with p s1 ex have "s' = (releaseQueuedMessages env drained)\<lparr>releaseQueuedMessagesPending := False\<rparr>"
      by (simp add: processPreServerExistsPackets_def drained_def [symmetric] Let_def)
    then have "pendingEditPackets s' = map (\<lambda>(k, b). (k, emptied b)) (pendingEditPackets drained)"
      by (simp add: releaseQueuedMessages_active [OF ex])
    then show ?thesis by (auto simp: emptied_def)
  qed
next
  show "releaseQueuedMessagesPending (queueOctreeEditMessage env type buffer s) =
     releaseQueuedMessagesPending s"
    by (rule queueOctreeEditMessage_latch)
next
  show "releaseQueuedMessagesPending (queuePendingPacketToNodes type buffer s) =
     releaseQueuedMessagesPending s"
    by (rule queuePendingPacketToNodes_latch)
qed


text \<open>
  A fresh sender latches a release without servers; a sender with the latch set and
  one pending record runs the release once a server with a jurisdiction is there.
\<close>

lemma release_latch_and_drain_example:
  "\<not> serversExist (sampleEnv [] None) \<and>
   releaseQueuedMessages (sampleEnv [] None) (sampleSender 10 1500) =
     (sampleSender 10 1500)\<lparr>releaseQueuedMessagesPending := True\<rparr> \<and>
   serversExist (sampleEnv [sampleNode 1 0] (Some (\<lambda>k. Some (\<lambda>octCode. True)))) \<and>
   processPreServerExistsPackets (sampleEnv [sampleNode 1 0] (Some (\<lambda>k. Some (\<lambda>octCode. True))))
     ((sampleSender 10 1500)\<lparr>releaseQueuedMessagesPending := True,
         preServerPackets := [newEditPacketBuffer (PacketTypeKnown 1) [9]]\<rparr>) =
     Inr ((sampleSender 10 1500)\<lparr>sequenceNumber := 1, clockReads := 1,
        pendingEditPackets :=
          [(1, \<lparr>nodeUUID = 1, currentType = PacketTypeUnknown, currentBuffer = []\<rparr>)],
        packetsQueued := [(1, [1] @ bytesOfUInt16 0 @ bytesOfUInt64 1000 @ [9])]\<rparr>)"
proof -
  let ?bootEnv = "sampleEnv [] None"
  let ?env = "sampleEnv [sampleNode 1 0] (Some (\<lambda>k. Some (\<lambda>octCode. True)))"
  let ?s = "(sampleSender 10 1500)\<lparr>releaseQueuedMessagesPending := True,
         preServerPackets := [newEditPacketBuffer (PacketTypeKnown 1) [9]]\<rparr>"
  note inst = release_latch_and_drain [of ?bootEnv "sampleSender 10 1500" ?env ?s]
  have boot: "\<not> serversExist ?bootEnv"
    by (simp add: serversExist_def sampleEnv_def)
  have active: "serversExist ?env"
    by (simp add: serversExist_def sampleEnv_def sampleNode_def)
  have pre: "serversExist ?env \<and> serverJurisdictions ?env \<noteq> None \<and> releaseQueuedMessagesPending ?s"
    using active by (simp add: sampleEnv_def)
  from inst boot have latched: "releaseQueuedMessages ?bootEnv (sampleSender 10 1500) =
     (sampleSender 10 1500)\<lparr>releaseQueuedMessagesPending := True\<rparr>" by blast
  from inst pre obtain s1 drained where
    s1: "sendSingleMessagePackets ?env (preServerSingleMessagePackets ?s) ?s = Inr s1"
    and d: "drained = replayPackets ?env (preServerPackets s1) s1"
    and run: "processPreServerExistsPackets ?env ?s =
           Inr (drained\<lparr>releaseQueuedMessagesPending := False,
                  packetsQueued := packetsQueued drained @
                    concat (map (\<lambda>(k, b). releasedPackets ?env b) (pendingEditPackets drained)),
                  pendingEditPackets :=
                    map (\<lambda>(k, b). (k, emptied b)) (pendingEditPackets drained)\<rparr>)"
    by blast
  from s1 have s1_eq: "s1 = ?s" by (simp add: sampleSender_def)
  have d_eq: "drained = (sampleSender 10 1500)\<lparr>releaseQueuedMessagesPending := True,
      sequenceNumber := 1, clockReads := 1,
      pendingEditPackets := [(1, \<lparr>nodeUUID = 1, currentType = PacketTypeKnown 1,
          currentBuffer = [1] @ bytesOfUInt16 0 @ bytesOfUInt64 1000 @ [9]\<rparr>)]\<rparr>"
    unfolding d s1_eq using active
    by (simp add: queueOctreeEditMessage_def appendToPacketBuffer_def pendingEditPacketFor_def
        initializePacket_def currentSize_def Let_def newEditPacketBuffer_def
        sampleEnv_def sampleNode_def sampleSender_def)
  have "processPreServerExistsPackets ?env ?s =
     Inr ((sampleSender 10 1500)\<lparr>sequenceNumber := 1, clockReads := 1,
        pendingEditPackets :=
          [(1, \<lparr>nodeUUID = 1, currentType = PacketTypeUnknown, currentBuffer = []\<rparr>)],
        packetsQueued := [(1, [1] @ bytesOfUInt16 0 @ bytesOfUInt64 1000 @ [9])]\<rparr>)"
    unfolding run d_eq
    by (simp add: releasedPackets_def emptied_def currentSize_def sampleEnv_def sampleNode_def
        sampleSender_def)
  with boot latched active show ?thesis by blast
qed

text \<open>
  Claim C6. A release latched while no servers exist is to be run once servers
  exist. With nothing pending it is not: a sender batches one record for a server;
  the servers are gone and releaseQueuedMessages latches; the server is back and
  process is called. The pending lists are empty, so process does not reach
  processPreServerExistsPackets and leaves the sender as it is, with the latch set,
  the record still in its buffer and nothing handed over, where releaseQueuedMessages
  run at that moment hands the buffer over.
\<close>

theorem latched_release_not_run_without_pending:
  "serversExist (sampleEnv [sampleNode 1 0] (Some (\<lambda>k. Some (\<lambda>octCode. True)))) \<and>
   \<not> serversExist (sampleEnv [] None) \<and>
   queueOctreeEditMessage (sampleEnv [sampleNode 1 0] (Some (\<lambda>k. Some (\<lambda>octCode. True))))
     (PacketTypeKnown 1) [9] (sampleSender 10 1500)
   = (sampleSender 10 1500)\<lparr>sequenceNumber := 1, clockReads := 1,
        pendingEditPackets := [(1, \<lparr>nodeUUID = 1, currentType = PacketTypeKnown 1,
          currentBuffer = [1] @ bytesOfUInt16 0 @ bytesOfUInt64 1000 @ [9]\<rparr>)]\<rparr> \<and>
   process (sampleEnv [sampleNode 1 0] (Some (\<lambda>k. Some (\<lambda>octCode. True))))
     (releaseQueuedMessages (sampleEnv [] None)
        (queueOctreeEditMessage (sampleEnv [sampleNode 1 0] (Some (\<lambda>k. Some (\<lambda>octCode. True))))
           (PacketTypeKnown 1) [9] (sampleSender 10 1500)))
   = Inr ((sampleSender 10 1500)\<lparr>releaseQueuedMessagesPending := True,
        sequenceNumber := 1, clockReads := 1,
        pendingEditPackets := [(1, \<lparr>nodeUUID = 1, currentType = PacketTypeKnown 1,
          currentBuffer = [1] @ bytesOfUInt16 0 @ bytesOfUInt64 1000 @ [9]\<rparr>)]\<rparr>) \<and>
   packetsQueued ((sampleSender 10 1500)\<lparr>releaseQueuedMessagesPending := True,
        sequenceNumber := 1, clockReads := 1,
        pendingEditPackets := [(1, \<lparr>nodeUUID = 1, currentType = PacketTypeKnown 1,
          currentBuffer = [1] @ bytesOfUInt16 0 @ bytesOfUInt64 1000 @ [9]\<rparr>)]\<rparr>) = [] \<and>
   packetsQueued
     (releaseQueuedMessages (sampleEnv [sampleNode 1 0] (Some (\<lambda>k. Some (\<lambda>octCode. True))))
        ((sampleSender 10 1500)\<lparr>releaseQueuedMessagesPending := True,
           sequenceNumber := 1, clockReads := 1,
           pendingEditPackets := [(1, \<lparr>nodeUUID = 1, currentType = PacketTypeKnown 1,
             currentBuffer = [1] @ bytesOfUInt16 0 @ bytesOfUInt64 1000 @ [9]\<rparr>)]\<rparr>))
   = [(1, [1] @ bytesOfUInt16 0 @ bytesOfUInt64 1000 @ [9])]"
proof -
  let ?env = "sampleEnv [sampleNode 1 0] (Some (\<lambda>k. Some (\<lambda>octCode. True)))"
  have active: "serversExist ?env"
    by (simp add: serversExist_def sampleEnv_def sampleNode_def)
  have gone: "\<not> serversExist (sampleEnv [] None)"
    by (simp add: serversExist_def sampleEnv_def)
  have batched: "queueOctreeEditMessage ?env (PacketTypeKnown 1) [9] (sampleSender 10 1500) =
      (sampleSender 10 1500)\<lparr>sequenceNumber := 1, clockReads := 1,
        pendingEditPackets := [(1, \<lparr>nodeUUID = 1, currentType = PacketTypeKnown 1,
          currentBuffer = [1] @ bytesOfUInt16 0 @ bytesOfUInt64 1000 @ [9]\<rparr>)]\<rparr>"
    using active
    by (simp add: queueOctreeEditMessage_def appendToPacketBuffer_def pendingEditPacketFor_def
        initializePacket_def currentSize_def Let_def sampleEnv_def sampleNode_def sampleSender_def)
  have released: "packetsQueued
     (releaseQueuedMessages ?env
        ((sampleSender 10 1500)\<lparr>releaseQueuedMessagesPending := True,
           sequenceNumber := 1, clockReads := 1,
           pendingEditPackets := [(1, \<lparr>nodeUUID = 1, currentType = PacketTypeKnown 1,
             currentBuffer = [1] @ bytesOfUInt16 0 @ bytesOfUInt64 1000 @ [9]\<rparr>)]\<rparr>))
   = [(1, [1] @ bytesOfUInt16 0 @ bytesOfUInt64 1000 @ [9])]"
    unfolding releaseQueuedMessages_active [OF active]
    by (simp add: releasedPackets_def currentSize_def sampleEnv_def sampleNode_def
        sampleSender_def)
  show ?thesis
    unfolding batched released using active gone
    by (simp add: releaseQueuedMessages_def process_def sampleSender_def)
qed

text \<open>
  What the evaluation says of the state process returns: the latch is set, the
  buffer for the server still holds the batched record, and no packet has been handed
  over.
\<close>

theorem latched_release_not_run_without_pending_witness:
  "\<exists>s'. process (sampleEnv [sampleNode 1 0] (Some (\<lambda>k. Some (\<lambda>octCode. True))))
          (releaseQueuedMessages (sampleEnv [] None)
             (queueOctreeEditMessage
                (sampleEnv [sampleNode 1 0] (Some (\<lambda>k. Some (\<lambda>octCode. True))))
                (PacketTypeKnown 1) [9] (sampleSender 10 1500))) = Inr s' \<and>
        releaseQueuedMessagesPending s' \<and>
        packetsQueued s' = [] \<and>
        map (\<lambda>(k, b). (k, currentType b, length (currentBuffer b))) (pendingEditPackets s') =
          [(1, PacketTypeKnown 1, 12)]"
proof -
  from latched_release_not_run_without_pending
  have run: "process (sampleEnv [sampleNode 1 0] (Some (\<lambda>k. Some (\<lambda>octCode. True))))
          (releaseQueuedMessages (sampleEnv [] None)
             (queueOctreeEditMessage
                (sampleEnv [sampleNode 1 0] (Some (\<lambda>k. Some (\<lambda>octCode. True))))
                (PacketTypeKnown 1) [9] (sampleSender 10 1500)))
      = Inr ((sampleSender 10 1500)\<lparr>releaseQueuedMessagesPending := True,
          sequenceNumber := 1, clockReads := 1,
          pendingEditPackets := [(1, \<lparr>nodeUUID = 1, currentType = PacketTypeKnown 1,
            currentBuffer = [1] @ bytesOfUInt16 0 @ bytesOfUInt64 1000 @ [9]\<rparr>)]\<rparr>)"
    by blast
  show ?thesis
    unfolding run
    by (simp add: sampleSender_def length_bytesOfUInt16 length_bytesOfUInt64)
qed

subsection \<open>The pending lists while no servers exist\<close>

lemma appendToPacketBuffer_preServerPackets:
  "appendToPacketBuffer env type node buffer (s\<lparr>preServerPackets := l\<rparr>) =
     (fst (appendToPacketBuffer env type node buffer s),
      (snd (appendToPacketBuffer env type node buffer s))\<lparr>preServerPackets := l\<rparr>)"
  by (simp add: appendToPacketBuffer_def pendingEditPacketFor_def releaseQueuedPacket_eq
      initializePacket_eq freshPacket_def Let_def split_beta)

lemma queueOctreeEditMessage_loop_preServerPackets:
  "queueOctreeEditMessage_loop env type nodes buffer (s\<lparr>preServerPackets := l\<rparr>) =
     (queueOctreeEditMessage_loop env type nodes buffer s)\<lparr>preServerPackets := l\<rparr>"
proof (induction nodes arbitrary: buffer s)
  case Nil
  show ?case by simp
next
  case (Cons n nodes)
  show ?case
    by (simp add: Let_def split_beta appendToPacketBuffer_preServerPackets Cons.IH)
qed

lemma queueOctreeEditMessage_active_preServerPackets:
  "serversExist env \<Longrightarrow>
   queueOctreeEditMessage env type buffer (s\<lparr>preServerPackets := l\<rparr>) =
     (queueOctreeEditMessage env type buffer s)\<lparr>preServerPackets := l\<rparr>"
  by (simp add: queueOctreeEditMessage_def queueOctreeEditMessage_loop_preServerPackets)

lemma foldl_active_preServerPackets:
  "serversExist env \<Longrightarrow>
   foldl (\<lambda>s (t, b). queueOctreeEditMessage env t b s) (s\<lparr>preServerPackets := l\<rparr>) edits =
     (foldl (\<lambda>s (t, b). queueOctreeEditMessage env t b s) s edits)\<lparr>preServerPackets := l\<rparr>"
  by (induction edits arbitrary: s)
     (simp_all add: split_beta queueOctreeEditMessage_active_preServerPackets)

lemma foldl_active_batchingOnly:
  "serversExist env \<Longrightarrow>
   batchingOnly s (foldl (\<lambda>s (t, b). queueOctreeEditMessage env t b s) s edits)"
proof (induction edits arbitrary: s)
  case Nil
  show ?case by (simp add: batchingOnly_refl)
next
  case (Cons e edits)
  from queueOctreeEditMessage_active_batchingOnly [OF Cons.prems, where s = s]
    Cons.IH [OF Cons.prems]
  show ?case by (auto simp: split_beta intro: batchingOnly_trans)
qed

lemma replayPackets_eq:
  assumes "serversExist env"
  shows "replayPackets env (map (\<lambda>(t, b). newEditPacketBuffer t b) edits) s =
     (foldl (\<lambda>s (t, b). queueOctreeEditMessage env t b s) s edits)
       \<lparr>preServerPackets := (if edits = [] then preServerPackets s else [])\<rparr>"
proof (induction edits arbitrary: s)
  case Nil
  show ?case by simp
next
  case (Cons e edits)
  obtain t b where e: "e = (t, b)" by (cases e)
  show ?case
    by (simp add: e newEditPacketBuffer_def Cons.IH [unfolded newEditPacketBuffer_def]
        foldl_active_preServerPackets [OF assms])
qed

lemma bootstrap_step:
  assumes "\<not> serversExist env" "shouldSend s" "preServerSingleMessagePackets s = []"
  shows "queueOctreeEditMessage env t b s =
     s\<lparr>preServerPackets :=
         (if maxPendingMessages s > 0
          then (if int (length (preServerPackets s)) + 1 > maxPendingMessages s
                then tl (preServerPackets s @ [newEditPacketBuffer t b])
                else preServerPackets s @ [newEditPacketBuffer t b])
          else preServerPackets s)\<rparr>"
  using assms by (simp add: queueOctreeEditMessage_def Let_def)

lemma drop_snoc_fifo:
  assumes "0 < c"
  shows "(if length (drop (length xs - c) xs) + 1 > c
          then tl (drop (length xs - c) xs @ [x])
          else drop (length xs - c) xs @ [x]) = drop (length (xs @ [x]) - c) (xs @ [x])"
proof (cases "c \<le> length xs")
  case True
  with assms have ne: "drop (length xs - c) xs \<noteq> []" by simp
  from True have "length (drop (length xs - c) xs) = c" by simp
  moreover from ne have "tl (drop (length xs - c) xs @ [x]) = tl (drop (length xs - c) xs) @ [x]"
    by simp
  moreover have "tl (drop (length xs - c) xs) = drop (Suc (length xs - c)) xs"
    by (simp add: drop_Suc tl_drop)
  moreover from True have "Suc (length xs - c) = length (xs @ [x]) - c" by simp
  ultimately show ?thesis using True assms by simp
next
  case False
  then show ?thesis by simp
qed

lemma bootstrap_fold:
  assumes "\<not> serversExist env" "shouldSend s" "preServerSingleMessagePackets s = []"
    "preServerPackets s = []"
  shows "foldl (\<lambda>s (t, b). queueOctreeEditMessage env t b s) s edits =
     s\<lparr>preServerPackets := map (\<lambda>(t, b). newEditPacketBuffer t b)
          (drop (length edits - nat (maxPendingMessages s)) edits)\<rparr>"
proof (induction edits rule: rev_induct)
  case Nil
  from assms(4) show ?case by simp
next
  case (snoc e edits)
  obtain t b where e: "e = (t, b)" by (cases e)
  let ?c = "nat (maxPendingMessages s)"
  let ?mk = "\<lambda>(t, b). newEditPacketBuffer t b"
  let ?s = "s\<lparr>preServerPackets := map ?mk (drop (length edits - ?c) edits)\<rparr>"
  have pre: "shouldSend ?s" "preServerSingleMessagePackets ?s = []"
    using assms by simp_all
  show ?case
  proof (cases "maxPendingMessages s > 0")
    case False
    then show ?thesis
      using assms(2,3) by (simp add: snoc.IH e bootstrap_step [OF assms(1)])
  next
    case True
    then have c: "0 < ?c" by simp
    from True have cmp: "\<And>n. (int n + 1 > maxPendingMessages s) = (n + 1 > ?c)" by auto
    have "map ?mk (drop (length (edits @ [e]) - ?c) (edits @ [e])) =
        (if length (drop (length edits - ?c) edits) + 1 > ?c
          then tl (map ?mk (drop (length edits - ?c) edits) @ [?mk e])
          else map ?mk (drop (length edits - ?c) edits) @ [?mk e])"
      unfolding drop_snoc_fifo [OF c, of edits e, symmetric]
      by (simp add: map_tl)
    then show ?thesis
      using True assms(2,3) by (simp add: snoc.IH e bootstrap_step [OF assms(1)] cmp)
  qed
qed

lemma pending_step:
  assumes "preServerPackets s = []"
  shows "queuePendingPacketToNodes t b s =
     s\<lparr>preServerSingleMessagePackets :=
         (if maxPendingMessages s > 0
          then (if int (length (preServerSingleMessagePackets s)) + 1 > maxPendingMessages s
                then tl (preServerSingleMessagePackets s @ [newEditPacketBuffer t b])
                else preServerSingleMessagePackets s @ [newEditPacketBuffer t b])
          else preServerSingleMessagePackets s)\<rparr>"
  using assms by (simp add: queuePendingPacketToNodes_def Let_def)

lemma pending_fold:
  assumes "preServerSingleMessagePackets s = []" "preServerPackets s = []"
  shows "foldl (\<lambda>s (t, b). queuePendingPacketToNodes t b s) s edits =
     s\<lparr>preServerSingleMessagePackets := map (\<lambda>(t, b). newEditPacketBuffer t b)
          (drop (length edits - nat (maxPendingMessages s)) edits)\<rparr>"
proof (induction edits rule: rev_induct)
  case Nil
  from assms(1) show ?case by simp
next
  case (snoc e edits)
  obtain t b where e: "e = (t, b)" by (cases e)
  let ?c = "nat (maxPendingMessages s)"
  let ?mk = "\<lambda>(t, b). newEditPacketBuffer t b"
  show ?case
  proof (cases "maxPendingMessages s > 0")
    case False
    then show ?thesis
      using assms(2) by (simp add: snoc.IH e pending_step)
  next
    case True
    then have c: "0 < ?c" by simp
    from True have cmp: "\<And>n. (int n + 1 > maxPendingMessages s) = (n + 1 > ?c)" by auto
    have "map ?mk (drop (length (edits @ [e]) - ?c) (edits @ [e])) =
        (if length (drop (length edits - ?c) edits) + 1 > ?c
          then tl (map ?mk (drop (length edits - ?c) edits) @ [?mk e])
          else map ?mk (drop (length edits - ?c) edits) @ [?mk e])"
      unfolding drop_snoc_fifo [OF c, of edits e, symmetric]
      by (simp add: map_tl)
    then show ?thesis
      using True assms(2) by (simp add: snoc.IH e pending_step cmp)
  qed
qed

text \<open>
  Submissions of one kind. A sender that sends, has nothing pending and no release
  latched is given a sequence of edits while no servers exist. If all of them come
  through queueOctreeEditMessage, the sender afterwards differs from before only in
  _preServerPackets, which holds the most recent maxPendingMessages edits in their
  order (all of them when there are fewer, none when the limit is not positive), and
  draining it once servers exist gives exactly the state that submitting those
  retained edits to the original sender with servers present gives. If all of them come
  through queuePendingPacketToNodes, the same holds of _preServerSingleMessagePackets.
\<close>

lemma bootstrap_fifo:
  assumes boot: "\<not> serversExist env" and active: "serversExist env'"
    and send: "shouldSend s"
    and empty: "preServerSingleMessagePackets s = []" "preServerPackets s = []"
    and nolatch: "\<not> releaseQueuedMessagesPending s"
    and retained: "retained = drop (length edits - nat (maxPendingMessages s)) edits"
  shows "foldl (\<lambda>s (t, b). queueOctreeEditMessage env t b s) s edits =
           s\<lparr>preServerPackets := map (\<lambda>(t, b). newEditPacketBuffer t b) retained\<rparr> \<and>
         processPreServerExistsPackets env'
             (foldl (\<lambda>s (t, b). queueOctreeEditMessage env t b s) s edits) =
           Inr (foldl (\<lambda>s (t, b). queueOctreeEditMessage env' t b s) s retained) \<and>
         foldl (\<lambda>s (t, b). queuePendingPacketToNodes t b s) s edits =
           s\<lparr>preServerSingleMessagePackets := map (\<lambda>(t, b). newEditPacketBuffer t b) retained\<rparr>"
proof (intro conjI)
  let ?mk = "\<lambda>(t, b). newEditPacketBuffer t b"
  let ?pending = "s\<lparr>preServerPackets := map ?mk retained\<rparr>"
  let ?direct = "foldl (\<lambda>s (t, b). queueOctreeEditMessage env' t b s) s retained"
  show fifo: "foldl (\<lambda>s (t, b). queueOctreeEditMessage env t b s) s edits = ?pending"
    unfolding retained by (rule bootstrap_fold [OF boot send empty])
  show "foldl (\<lambda>s (t, b). queuePendingPacketToNodes t b s) s edits =
           s\<lparr>preServerSingleMessagePackets := map ?mk retained\<rparr>"
    unfolding retained by (rule pending_fold [OF empty])
  from foldl_active_batchingOnly [OF active, of s retained]
  have fr: "preServerPackets ?direct = []" "\<not> releaseQueuedMessagesPending ?direct"
    using empty nolatch by (simp_all add: batchingOnly_def)
  have "?direct = ?direct\<lparr>preServerPackets := preServerPackets ?direct\<rparr>" by simp
  then have same: "?direct\<lparr>preServerPackets := []\<rparr> = ?direct" using fr(1) by simp
  have "replayPackets env' (map ?mk retained) ?pending =
      (foldl (\<lambda>s (t, b). queueOctreeEditMessage env' t b s) ?pending retained)
        \<lparr>preServerPackets := (if retained = [] then preServerPackets ?pending else [])\<rparr>"
    by (rule replayPackets_eq [OF active])
  also have "\<dots> = ?direct\<lparr>preServerPackets := []\<rparr>"
    by (simp add: foldl_active_preServerPackets [OF active])
  finally have replay: "replayPackets env' (map ?mk retained) ?pending = ?direct"
    using same by simp
  show "processPreServerExistsPackets env'
      (foldl (\<lambda>s (t, b). queueOctreeEditMessage env t b s) s edits) = Inr ?direct"
    unfolding fifo using active empty(1) replay fr(2)
    by (simp add: processPreServerExistsPackets_def Let_def)
qed

text \<open>Three edits and a limit of two.\<close>

lemma bootstrap_fifo_example:
  "foldl (\<lambda>s (t, b). queueOctreeEditMessage (sampleEnv [] None) t b s) (sampleSender 2 1500)
      [(PacketTypeKnown 1, [1]), (PacketTypeKnown 1, [2]), (PacketTypeKnown 1, [3])] =
     (sampleSender 2 1500)\<lparr>preServerPackets := map (\<lambda>(t, b). newEditPacketBuffer t b)
        [(PacketTypeKnown 1, [2]), (PacketTypeKnown 1, [3])]\<rparr> \<and>
   processPreServerExistsPackets (sampleEnv [sampleNode 1 0] None)
     (foldl (\<lambda>s (t, b). queueOctreeEditMessage (sampleEnv [] None) t b s) (sampleSender 2 1500)
        [(PacketTypeKnown 1, [1]), (PacketTypeKnown 1, [2]), (PacketTypeKnown 1, [3])]) =
     Inr (foldl (\<lambda>s (t, b). queueOctreeEditMessage (sampleEnv [sampleNode 1 0] None) t b s)
            (sampleSender 2 1500) [(PacketTypeKnown 1, [2]), (PacketTypeKnown 1, [3])])"
proof -
  have boot: "\<not> serversExist (sampleEnv [] None)"
    by (simp add: serversExist_def sampleEnv_def)
  have active: "serversExist (sampleEnv [sampleNode 1 0] None)"
    by (simp add: serversExist_def sampleEnv_def sampleNode_def)
  have s: "shouldSend (sampleSender 2 1500)"
    "preServerSingleMessagePackets (sampleSender 2 1500) = []"
    "preServerPackets (sampleSender 2 1500) = []"
    "\<not> releaseQueuedMessagesPending (sampleSender 2 1500)"
    by (simp_all add: sampleSender_def)
  have r: "[(PacketTypeKnown 1, [2 :: byte]), (PacketTypeKnown 1, [3])] =
      drop (length [(PacketTypeKnown 1, [1 :: byte]), (PacketTypeKnown 1, [2]), (PacketTypeKnown 1, [3])]
            - nat (maxPendingMessages (sampleSender 2 1500)))
        [(PacketTypeKnown 1, [1]), (PacketTypeKnown 1, [2]), (PacketTypeKnown 1, [3])]"
    by (simp add: sampleSender_def)
  from bootstrap_fifo [OF boot active s r] show ?thesis by blast
qed

text \<open>
  Claim C3. An overflowing submission is to drop the oldest pending entry, so that
  the most recent edits are the ones retained and drained. Each of the two functions
  counts both pending lists but erases the front of its own list. With a limit of two
  and nothing pending, edit records 1 and 2 followed by a single-message packet 3: the
  packet is pushed, the count is 3, and the front of the single-message list, the
  packet just pushed, is erased; records 1 and 2 stay pending and are what the drain
  batches once a server is there, where the two most recent edits are 2 and 3. In the
  other order, a single-message packet 1 followed by edit records 2 and 3 leaves 1 and
  3 pending: record 2 is erased, not the oldest entry.
\<close>

theorem pending_overflow_erases_own_list_front:
  "\<not> serversExist (sampleEnv [] None) \<and>
   queuePendingPacketToNodes (PacketTypeKnown 1) [1, 0, 0, 0, 0, 0, 0, 0, 0, 0, 0, 3]
     (queueOctreeEditMessage (sampleEnv [] None) (PacketTypeKnown 1) [2]
        (queueOctreeEditMessage (sampleEnv [] None) (PacketTypeKnown 1) [1] (sampleSender 2 1500)))
   = (sampleSender 2 1500)\<lparr>preServerPackets :=
        [newEditPacketBuffer (PacketTypeKnown 1) [1], newEditPacketBuffer (PacketTypeKnown 1) [2]]\<rparr> \<and>
   serversExist (sampleEnv [sampleNode 1 0] (Some (\<lambda>k. Some (\<lambda>octCode. True)))) \<and>
   processPreServerExistsPackets (sampleEnv [sampleNode 1 0] (Some (\<lambda>k. Some (\<lambda>octCode. True))))
     ((sampleSender 2 1500)\<lparr>preServerPackets :=
        [newEditPacketBuffer (PacketTypeKnown 1) [1], newEditPacketBuffer (PacketTypeKnown 1) [2]]\<rparr>)
   = Inr ((sampleSender 2 1500)\<lparr>sequenceNumber := 1, clockReads := 1,
        pendingEditPackets := [(1, \<lparr>nodeUUID = 1, currentType = PacketTypeKnown 1,
          currentBuffer = [1] @ bytesOfUInt16 0 @ bytesOfUInt64 1000 @ [1] @ [2]\<rparr>)]\<rparr>) \<and>
   map currentBuffer
     (preServerSingleMessagePackets
        (queueOctreeEditMessage (sampleEnv [] None) (PacketTypeKnown 1) [3]
          (queueOctreeEditMessage (sampleEnv [] None) (PacketTypeKnown 1) [2]
            (queuePendingPacketToNodes (PacketTypeKnown 1) [1, 0, 0, 0, 0, 0, 0, 0, 0, 0, 0, 1]
               (sampleSender 2 1500)))) @
      preServerPackets
        (queueOctreeEditMessage (sampleEnv [] None) (PacketTypeKnown 1) [3]
          (queueOctreeEditMessage (sampleEnv [] None) (PacketTypeKnown 1) [2]
            (queuePendingPacketToNodes (PacketTypeKnown 1) [1, 0, 0, 0, 0, 0, 0, 0, 0, 0, 0, 1]
               (sampleSender 2 1500)))))
     = [[1, 0, 0, 0, 0, 0, 0, 0, 0, 0, 0, 1], [3]]"
proof -
  let ?env = "sampleEnv [sampleNode 1 0] (Some (\<lambda>k. Some (\<lambda>octCode. True)))"
  have boot: "\<not> serversExist (sampleEnv [] None)"
    by (simp add: serversExist_def sampleEnv_def)
  have active: "serversExist ?env"
    by (simp add: serversExist_def sampleEnv_def sampleNode_def)
  have submitted: "queuePendingPacketToNodes (PacketTypeKnown 1) [1, 0, 0, 0, 0, 0, 0, 0, 0, 0, 0, 3]
     (queueOctreeEditMessage (sampleEnv [] None) (PacketTypeKnown 1) [2]
        (queueOctreeEditMessage (sampleEnv [] None) (PacketTypeKnown 1) [1] (sampleSender 2 1500)))
   = (sampleSender 2 1500)\<lparr>preServerPackets :=
        [newEditPacketBuffer (PacketTypeKnown 1) [1], newEditPacketBuffer (PacketTypeKnown 1) [2]]\<rparr>"
    using boot
    by (simp add: queueOctreeEditMessage_def queuePendingPacketToNodes_def Let_def
        sampleSender_def)
  have drained: "processPreServerExistsPackets ?env
     ((sampleSender 2 1500)\<lparr>preServerPackets :=
        [newEditPacketBuffer (PacketTypeKnown 1) [1], newEditPacketBuffer (PacketTypeKnown 1) [2]]\<rparr>)
   = Inr ((sampleSender 2 1500)\<lparr>sequenceNumber := 1, clockReads := 1,
        pendingEditPackets := [(1, \<lparr>nodeUUID = 1, currentType = PacketTypeKnown 1,
          currentBuffer = [1] @ bytesOfUInt16 0 @ bytesOfUInt64 1000 @ [1] @ [2]\<rparr>)]\<rparr>)"
    using active
    by (simp add: processPreServerExistsPackets_def queueOctreeEditMessage_def
        appendToPacketBuffer_def pendingEditPacketFor_def initializePacket_def currentSize_def
        Let_def newEditPacketBuffer_def sampleEnv_def sampleNode_def sampleSender_def
        length_bytesOfUInt16 length_bytesOfUInt64)
  have mirrored: "map currentBuffer
     (preServerSingleMessagePackets
        (queueOctreeEditMessage (sampleEnv [] None) (PacketTypeKnown 1) [3]
          (queueOctreeEditMessage (sampleEnv [] None) (PacketTypeKnown 1) [2]
            (queuePendingPacketToNodes (PacketTypeKnown 1) [1, 0, 0, 0, 0, 0, 0, 0, 0, 0, 0, 1]
               (sampleSender 2 1500)))) @
      preServerPackets
        (queueOctreeEditMessage (sampleEnv [] None) (PacketTypeKnown 1) [3]
          (queueOctreeEditMessage (sampleEnv [] None) (PacketTypeKnown 1) [2]
            (queuePendingPacketToNodes (PacketTypeKnown 1) [1, 0, 0, 0, 0, 0, 0, 0, 0, 0, 0, 1]
               (sampleSender 2 1500)))))
     = [[1, 0, 0, 0, 0, 0, 0, 0, 0, 0, 0, 1], [3]]"
    using boot
    by (simp add: queueOctreeEditMessage_def queuePendingPacketToNodes_def Let_def
        sampleSender_def newEditPacketBuffer_def)
  from boot submitted active drained mirrored show ?thesis by (intro conjI)
qed

end
